theory Spec2Isabelle
  imports Main
begin

section \<open>The page around the WebSocketManager\<close>

text \<open>
  Values that travel over the socket. \<open>JObj\<close> lists the properties of an object in
  lookup order; \<open>JBigInt\<close> is a value a caller can hand to \<open>send\<close> that
  \<open>JSON.stringify\<close> refuses. Numbers are kept as integers: nothing below computes with them.
\<close>

datatype jsval =
    JNull
  | JBool bool
  | JNum int
  | JStr string
  | JBigInt int
  | JArr "jsval list"
  | JObj "(string \<times> jsval) list"

text \<open>What a listener receives: the browser's event object, or a parsed frame.\<close>

datatype payload = OpenEvent | CloseEvent bool | ErrorEvent | Data jsval

text \<open>An inbound frame, by what \<open>JSON.parse(event.data)\<close> makes of it.\<close>

datatype frame = Malformed | Json jsval

text \<open>A callback is known by its identity; what it does when called is the page's.\<close>

type_synonym handler = nat

text \<open>What a callback may ask of the manager while it runs: \<open>on\<close> and \<open>off\<close>.\<close>

datatype call = Register string handler | Unregister string handler

datatype ready_state = CONNECTING | OPEN | CLOSING | CLOSED

datatype status = Connected | Disconnected | Error | Connecting

datatype js_error = TypeError

text \<open>
  What the manager does to the outside, in order: calling a listener, \<open>console.error\<close>
  and \<open>console.warn\<close> (by message), a toast (title and kind), handing a message to a
  socket, and arming the reconnect timer with a delay in milliseconds.
\<close>

datatype effect =
    Invoke handler payload
  | ConsoleError string
  | ConsoleWarn string
  | Toast string string
  | Transmit nat jsval
  | SetTimeout nat

text \<open>The fields of \<open>class WebSocketManager\<close>; \<open>socket\<close> points into the page's sockets.\<close>

record ws_manager =
  socket :: "nat option"
  isConnected :: bool
  reconnectAttempts :: nat
  maxReconnectAttempts :: nat
  reconnectInterval :: nat
  listeners :: "string \<rightharpoonup> handler list"

text \<open>
  The page: the manager, every socket ever constructed with its \<open>readyState\<close>, the
  delays of the reconnect timers still pending, the connection-status indicator of the
  document, and the log of effects. Four things are the page's and never change:
  whether a callback throws on a payload, which registrations it makes and undoes
  before it returns or throws, how a non-string value becomes a property key, and
  whether \<open>new WebSocket(wsUrl)\<close> throws for this page's origin.
  The document is taken to hold the \<open>connection-status\<close> element with its children.
\<close>

record world =
  mgr :: ws_manager
  sockets :: "ready_state list"
  timers :: "nat list"
  indicator :: status
  trace :: "effect list"
  throws :: "handler \<Rightarrow> payload \<Rightarrow> bool"
  acts :: "handler \<Rightarrow> payload \<Rightarrow> call list"
  to_key :: "jsval \<Rightarrow> string"
  ctor_fails :: bool

definition log :: "effect \<Rightarrow> world \<Rightarrow> world" where
  "log e w = w\<lparr>trace := trace w @ [e]\<rparr>"

definition updateConnectionStatus :: "status \<Rightarrow> world \<Rightarrow> world" where
  "updateConnectionStatus st w = w\<lparr>indicator := st\<rparr>"

definition showToast :: "string \<Rightarrow> string \<Rightarrow> world \<Rightarrow> world" where
  "showToast title kind w = log (Toast title kind) w"

subsection \<open>on, off, emit\<close>

text \<open>
  \<open>this.listeners\<close> starts as \<open>{}\<close>, so a name that \<open>Object.prototype\<close> defines reads
  as a truthy non-array until it is shadowed; \<open>push\<close> and \<open>forEach\<close> on it throw.
\<close>

definition object_prototype_keys :: "string list" where
  "object_prototype_keys =
     [''constructor'', ''toString'', ''toLocaleString'', ''valueOf'', ''hasOwnProperty'',
      ''isPrototypeOf'', ''propertyIsEnumerable'', ''__proto__'', ''__defineGetter__'',
      ''__defineSetter__'', ''__lookupGetter__'', ''__lookupSetter__'']"

definition on :: "string \<Rightarrow> handler \<Rightarrow> world \<Rightarrow> js_error + world" where
  "on ev cb w =
     (case listeners (mgr w) ev of
        Some cbs \<Rightarrow> Inr (w\<lparr>mgr := (mgr w)\<lparr>listeners := (listeners (mgr w))(ev \<mapsto> cbs @ [cb])\<rparr>\<rparr>)
      | None \<Rightarrow>
          if ev \<in> set object_prototype_keys then Inl TypeError
          else Inr (w\<lparr>mgr := (mgr w)\<lparr>listeners := (listeners (mgr w))(ev \<mapsto> [cb])\<rparr>\<rparr>))"

fun splice_first :: "handler \<Rightarrow> handler list \<Rightarrow> handler list" where
  "splice_first cb [] = []"
| "splice_first cb (c # cs) = (if c = cb then cs else c # splice_first cb cs)"

definition off :: "string \<Rightarrow> handler \<Rightarrow> world \<Rightarrow> js_error + world" where
  "off ev cb w =
     (case listeners (mgr w) ev of
        Some cbs \<Rightarrow> Inr (w\<lparr>mgr := (mgr w)\<lparr>listeners := (listeners (mgr w))(ev \<mapsto> splice_first cb cbs)\<rparr>\<rparr>)
      | None \<Rightarrow> if ev \<in> set object_prototype_keys then Inl TypeError else Inr w)"

text \<open>
  One call of a callback from \<open>emit\<close>, inside its \<open>try\<close>: the callback runs, making
  its calls of \<open>on\<close> and \<open>off\<close> in order; a call that throws ends it there; if it
  threw, by such a call or by itself, the \<open>catch\<close> logs with \<open>console.error\<close>.
  Whatever else a callback does is the page's and is not followed here.
\<close>

fun perform :: "call list \<Rightarrow> world \<Rightarrow> world \<times> bool" where
  "perform [] w = (w, False)"
| "perform (Register ev cb # cs) w =
     (case on ev cb w of Inl e \<Rightarrow> (w, True) | Inr w' \<Rightarrow> perform cs w')"
| "perform (Unregister ev cb # cs) w =
     (case off ev cb w of Inl e \<Rightarrow> (w, True) | Inr w' \<Rightarrow> perform cs w')"

definition callback :: "string \<Rightarrow> handler \<Rightarrow> payload \<Rightarrow> world \<Rightarrow> world" where
  "callback ev cb p w =
     (case perform (acts w cb p) (log (Invoke cb p) w) of
        (w1, threw) \<Rightarrow>
          if threw \<or> throws w cb p
          then log (ConsoleError (''Error in WebSocket event listener for '' @ ev @ '':'')) w1
          else w1)"

text \<open>
  \<open>forEach\<close> reads the length of the array once and then visits the indices below it
  in order, each time looking into the array as it is by then: \<open>off\<close> splices that
  same array and \<open>on\<close> pushes onto it. An index that is no longer there is passed
  over. The first number is how many indices are left, the second the next index.
\<close>

fun forEach_listeners :: "string \<Rightarrow> payload \<Rightarrow> nat \<Rightarrow> nat \<Rightarrow> world \<Rightarrow> world" where
  "forEach_listeners ev p 0 k w = w"
| "forEach_listeners ev p (Suc n) k w =
     forEach_listeners ev p n (Suc k)
       (case listeners (mgr w) ev of
          None \<Rightarrow> w
        | Some cbs \<Rightarrow> if k < length cbs then callback ev (cbs ! k) p w else w)"

definition emit :: "string \<Rightarrow> payload \<Rightarrow> world \<Rightarrow> js_error + world" where
  "emit ev p w =
     (case listeners (mgr w) ev of
        Some cbs \<Rightarrow> Inr (forEach_listeners ev p (length cbs) 0 w)
      | None \<Rightarrow> if ev \<in> set object_prototype_keys then Inl TypeError else Inr w)"

subsection \<open>connect and the socket's four callbacks\<close>

text \<open>
  \<open>connect\<close> has no test of the current state: it constructs a socket and stores it
  in \<open>this.socket\<close>; only a throwing constructor leaves the old one in place.
\<close>

definition connect :: "world \<Rightarrow> world" where
  "connect w =
     (if ctor_fails w
      then updateConnectionStatus Error (log (ConsoleError ''Failed to create WebSocket connection:'') w)
      else w\<lparr>mgr := (mgr w)\<lparr>socket := Some (length (sockets w))\<rparr>,
             sockets := sockets w @ [CONNECTING]\<rparr>)"

definition onopen :: "world \<Rightarrow> world" where
  "onopen w =
     (let w1 = w\<lparr>mgr := (mgr w)\<lparr>isConnected := True, reconnectAttempts := 0, reconnectInterval := 1000\<rparr>\<rparr>;
          w2 = updateConnectionStatus Connected w1;
          w3 = showToast ''Connected'' ''success'' w2
      in case emit ''connected'' OpenEvent w3 of Inl e \<Rightarrow> w3 | Inr w4 \<Rightarrow> w4)"

definition field :: "string \<Rightarrow> jsval \<Rightarrow> jsval option" where
  "field k v = (case v of JObj fs \<Rightarrow> map_of fs k | _ \<Rightarrow> None)"

text \<open>The property key that \<open>data.type\<close> selects in \<open>this.listeners\<close>.\<close>

definition type_key :: "world \<Rightarrow> jsval \<Rightarrow> string" where
  "type_key w v =
     (case field ''type'' v of
        None \<Rightarrow> ''undefined''
      | Some (JStr s) \<Rightarrow> s
      | Some x \<Rightarrow> to_key w x)"

definition parse_error :: "world \<Rightarrow> world" where
  "parse_error w = log (ConsoleError ''Error parsing WebSocket message:'') w"

definition onmessage :: "frame \<Rightarrow> world \<Rightarrow> world" where
  "onmessage fr w =
     (case fr of
        Malformed \<Rightarrow> parse_error w
      | Json JNull \<Rightarrow> parse_error w
      | Json d \<Rightarrow>
          (case emit ''message'' (Data d) w of
             Inl e \<Rightarrow> parse_error w
           | Inr w1 \<Rightarrow>
               (case emit (type_key w1 d) (Data d) w1 of
                  Inl e \<Rightarrow> parse_error w1
                | Inr w2 \<Rightarrow> w2)))"

definition scheduleReconnect :: "world \<Rightarrow> world" where
  "scheduleReconnect w =
     (let w1 = w\<lparr>mgr := (mgr w)\<lparr>reconnectAttempts := reconnectAttempts (mgr w) + 1\<rparr>\<rparr>;
          delay = min (reconnectInterval (mgr w1) * 2 ^ reconnectAttempts (mgr w1)) 30000;
          w2 = showToast ''Reconnecting'' ''warning'' w1
      in log (SetTimeout delay) (w2\<lparr>timers := timers w2 @ [delay]\<rparr>))"

definition onclose :: "bool \<Rightarrow> world \<Rightarrow> world" where
  "onclose wasClean w =
     (let w1 = w\<lparr>mgr := (mgr w)\<lparr>isConnected := False\<rparr>\<rparr>;
          w2 = updateConnectionStatus Disconnected w1
      in case emit ''disconnected'' (CloseEvent wasClean) w2 of
           Inl e \<Rightarrow> w2
         | Inr w3 \<Rightarrow>
             if \<not> wasClean \<and> reconnectAttempts (mgr w3) < maxReconnectAttempts (mgr w3)
             then scheduleReconnect w3
             else if reconnectAttempts (mgr w3) \<ge> maxReconnectAttempts (mgr w3)
             then updateConnectionStatus Error (showToast ''Connection Failed'' ''error'' w3)
             else w3)"

definition onerror :: "world \<Rightarrow> world" where
  "onerror w =
     (let w1 = log (ConsoleError ''WebSocket error:'') w;
          w2 = updateConnectionStatus Error w1
      in case emit ''error'' ErrorEvent w2 of Inl e \<Rightarrow> w2 | Inr w3 \<Rightarrow> w3)"

text \<open>The callback that \<open>scheduleReconnect\<close> hands to \<open>setTimeout\<close>.\<close>

definition reconnect_timer :: "world \<Rightarrow> world" where
  "reconnect_timer w = (if \<not> isConnected (mgr w) then connect w else w)"

subsection \<open>send and close\<close>

primrec serializable :: "jsval \<Rightarrow> bool" where
  "serializable JNull = True"
| "serializable (JBool b) = True"
| "serializable (JNum n) = True"
| "serializable (JStr s) = True"
| "serializable (JBigInt n) = False"
| "serializable (JArr vs) = list_all (\<lambda>b. b) (map serializable vs)"
| "serializable (JObj fs) = list_all (\<lambda>b. b) (map snd (map (map_prod id serializable) fs))"

definition readyState :: "world \<Rightarrow> nat \<Rightarrow> ready_state option" where
  "readyState w i = (if i < length (sockets w) then Some (sockets w ! i) else None)"

text \<open>
  The first test of \<open>send\<close> is outside its \<open>try\<close>: with \<open>isConnected\<close> set and no
  socket it would throw. Inside the \<open>try\<close>, \<open>JSON.stringify\<close> may throw; an open socket
  takes a string without throwing.
\<close>

definition send :: "string \<Rightarrow> jsval \<Rightarrow> world \<Rightarrow> js_error + (bool \<times> world)" where
  "send ty d w =
     (if \<not> isConnected (mgr w)
      then Inr (False, log (ConsoleWarn ''WebSocket not connected, message not sent:'') w)
      else
        case socket (mgr w) of
          None \<Rightarrow> Inl TypeError
        | Some i \<Rightarrow>
            if readyState w i \<noteq> Some OPEN
            then Inr (False, log (ConsoleWarn ''WebSocket not connected, message not sent:'') w)
            else
              let message = JObj [(''type'', JStr ty), (''data'', d)]
              in if serializable message
                 then Inr (True, log (Transmit i message) w)
                 else Inr (False, log (ConsoleError ''Error sending WebSocket message:'') w))"

definition close :: "world \<Rightarrow> world" where
  "close w =
     (case socket (mgr w) of
        None \<Rightarrow> w
      | Some i \<Rightarrow>
          if readyState w i = Some CONNECTING \<or> readyState w i = Some OPEN
          then w\<lparr>sockets := (sockets w)[i := CLOSING]\<rparr>
          else w)"

subsection \<open>The page's events\<close>

text \<open>
  Everything runs on one thread, one callback at a time. The browser fires a socket's
  callbacks only while the socket is alive, moving its \<open>readyState\<close> first, and fires
  a timer only while it is pending; scripts call the manager's methods. Every socket
  that \<open>connect\<close> made carries the same four callbacks, bound to the one manager.
\<close>

datatype event =
    SocketOpen nat
  | SocketMessage nat frame
  | SocketError nat
  | SocketClose nat bool
  | TimerFire nat
  | CallConnect
  | CallSend string jsval
  | CallClose
  | CallOn string handler
  | CallOff string handler

definition alive :: "world \<Rightarrow> nat \<Rightarrow> bool" where
  "alive w i = (case readyState w i of None \<Rightarrow> False | Some r \<Rightarrow> r \<noteq> CLOSED)"

fun step :: "event \<Rightarrow> world \<Rightarrow> world option" where
  "step (SocketOpen i) w =
     (if readyState w i = Some CONNECTING
      then Some (onopen (w\<lparr>sockets := (sockets w)[i := OPEN]\<rparr>)) else None)"
| "step (SocketMessage i fr) w =
     (if readyState w i = Some OPEN \<or> readyState w i = Some CLOSING
      then Some (onmessage fr w) else None)"
| "step (SocketError i) w =
     (if alive w i then Some (onerror w) else None)"
| "step (SocketClose i wasClean) w =
     (if alive w i
      then Some (onclose wasClean (w\<lparr>sockets := (sockets w)[i := CLOSED]\<rparr>)) else None)"
| "step (TimerFire k) w =
     (if k < length (timers w)
      then Some (reconnect_timer (w\<lparr>timers := take k (timers w) @ drop (Suc k) (timers w)\<rparr>))
      else None)"
| "step CallConnect w = Some (connect w)"
| "step (CallSend ty d) w =
     (case send ty d w of Inl e \<Rightarrow> Some w | Inr (b, w') \<Rightarrow> Some w')"
| "step CallClose w = Some (close w)"
| "step (CallOn ev cb) w = (case on ev cb w of Inl e \<Rightarrow> Some w | Inr w' \<Rightarrow> Some w')"
| "step (CallOff ev cb) w = (case off ev cb w of Inl e \<Rightarrow> Some w | Inr w' \<Rightarrow> Some w')"

text \<open>An event the page cannot have at that moment is passed over.\<close>

fun run :: "event list \<Rightarrow> world \<Rightarrow> world" where
  "run [] w = w"
| "run (e # es) w = run es (case step e w of None \<Rightarrow> w | Some w' \<Rightarrow> w')"

text \<open>What happens by itself, as opposed to a script calling the manager.\<close>

fun automatic :: "event \<Rightarrow> bool" where
  "automatic (SocketOpen i) = True"
| "automatic (SocketMessage i fr) = True"
| "automatic (SocketError i) = True"
| "automatic (SocketClose i wasClean) = True"
| "automatic (TimerFire k) = True"
| "automatic e = False"

text \<open>
  \<open>new WebSocketManager()\<close> on a page with no socket and no timer yet, and the
  \<open>DOMContentLoaded\<close> listener of the same file, which registers seven callbacks.
\<close>

definition constructor ::
  "(handler \<Rightarrow> payload \<Rightarrow> bool) \<Rightarrow> (handler \<Rightarrow> payload \<Rightarrow> call list) \<Rightarrow> (jsval \<Rightarrow> string) \<Rightarrow> bool \<Rightarrow> world" where
  "constructor thr ac tk cf =
     connect
       \<lparr>mgr = \<lparr>socket = None, isConnected = False, reconnectAttempts = 0,
               maxReconnectAttempts = 5, reconnectInterval = 1000, listeners = Map.empty\<rparr>,
        sockets = [], timers = [], indicator = Connecting, trace = [],
        throws = thr, acts = ac, to_key = tk, ctor_fails = cf\<rparr>"

definition page_ready ::
  "(handler \<Rightarrow> payload \<Rightarrow> bool) \<Rightarrow> (handler \<Rightarrow> payload \<Rightarrow> call list) \<Rightarrow> (jsval \<Rightarrow> string) \<Rightarrow> bool \<Rightarrow> world" where
  "page_ready thr ac tk cf =
     run [CallOn ''initial_data'' 0, CallOn ''analysis_result'' 1, CallOn ''new_analysis'' 2,
          CallOn ''analytics_update'' 3, CallOn ''connected'' 4, CallOn ''disconnected'' 5,
          CallOn ''error'' 6]
       (constructor thr ac tk cf)"

text \<open>
  One failed connection: the manager's current socket closes uncleanly and, when a
  reconnect was scheduled, its delay elapses.
\<close>

definition abnormal_close :: "world \<Rightarrow> world" where
  "abnormal_close w =
     (case socket (mgr w) of
        None \<Rightarrow> w
      | Some i \<Rightarrow>
          (case step (SocketClose i False) w of
             None \<Rightarrow> w
           | Some w1 \<Rightarrow> (case step (TimerFire 0) w1 of None \<Rightarrow> w1 | Some w2 \<Rightarrow> w2)))"

fun scheduled :: "effect list \<Rightarrow> nat list" where
  "scheduled [] = []"
| "scheduled (SetTimeout d # es) = d # scheduled es"
| "scheduled (e # es) = scheduled es"

text \<open>Readings of a state and of a log that the statements below use.\<close>

definition registered :: "world \<Rightarrow> string \<Rightarrow> handler list" where
  "registered w ev = (case listeners (mgr w) ev of None \<Rightarrow> [] | Some cbs \<Rightarrow> cbs)"

fun invocations :: "effect list \<Rightarrow> (handler \<times> payload) list" where
  "invocations [] = []"
| "invocations (Invoke cb p # es) = (cb, p) # invocations es"
| "invocations (e # es) = invocations es"


text \<open>
  What \<open>emit\<close> leaves behind, also when it throws, and what it logs for a list of
  callbacks that make no calls of their own.
\<close>

definition emitted :: "string \<Rightarrow> payload \<Rightarrow> world \<Rightarrow> world" where
  "emitted ev p w = (case emit ev p w of Inl e \<Rightarrow> w | Inr w' \<Rightarrow> w')"

fun dispatch_log :: "(handler \<Rightarrow> payload \<Rightarrow> bool) \<Rightarrow> string \<Rightarrow> payload \<Rightarrow> handler list \<Rightarrow> effect list" where
  "dispatch_log thr ev p [] = []"
| "dispatch_log thr ev p (cb # cbs) =
     (if thr cb p
      then [Invoke cb p, ConsoleError (''Error in WebSocket event listener for '' @ ev @ '':'')]
      else [Invoke cb p])
     @ dispatch_log thr ev p cbs"


definition backoff :: "nat \<Rightarrow> nat" where
  "backoff n = min (1000 * 2 ^ n) 30000"

text \<open>
  Everything of the page but the listeners and the log is the same, and no timer was
  armed in between.
\<close>

definition kept :: "world \<Rightarrow> world \<Rightarrow> bool" where
  "kept w w' \<longleftrightarrow>
     sockets w' = sockets w \<and> timers w' = timers w \<and> indicator w' = indicator w \<and>
     throws w' = throws w \<and> acts w' = acts w \<and> to_key w' = to_key w \<and>
     ctor_fails w' = ctor_fails w \<and> socket (mgr w') = socket (mgr w) \<and>
     isConnected (mgr w') = isConnected (mgr w) \<and>
     reconnectAttempts (mgr w') = reconnectAttempts (mgr w) \<and>
     maxReconnectAttempts (mgr w') = maxReconnectAttempts (mgr w) \<and>
     reconnectInterval (mgr w') = reconnectInterval (mgr w) \<and>
     scheduled (trace w') = scheduled (trace w)"

text \<open>
  A manager in the middle of its retries: \<open>a\<close> reconnects scheduled so far, no timer
  pending, the current socket alive and every earlier one closed.
\<close>

definition retrying :: "nat \<Rightarrow> world \<Rightarrow> bool" where
  "retrying a w \<longleftrightarrow>
     reconnectAttempts (mgr w) = a \<and> maxReconnectAttempts (mgr w) = 5 \<and>
     reconnectInterval (mgr w) = 1000 \<and> timers w = [] \<and> \<not> ctor_fails w \<and>
     (case socket (mgr w) of
        None \<Rightarrow> False
      | Some i \<Rightarrow> alive w i \<and> Suc i = length (sockets w) \<and>
                 list_all (\<lambda>r. r = CLOSED) (butlast (sockets w)))"

text \<open>Nothing left that could happen by itself: no timer pending, every socket closed.\<close>

definition quiescent :: "world \<Rightarrow> bool" where
  "quiescent w \<longleftrightarrow> timers w = [] \<and> list_all (\<lambda>r. r = CLOSED) (sockets w)"

definition given_up :: "world \<Rightarrow> bool" where
  "given_up w \<longleftrightarrow>
     reconnectAttempts (mgr w) = 5 \<and> maxReconnectAttempts (mgr w) = 5 \<and>
     indicator w = Error \<and> \<not> isConnected (mgr w) \<and> socket (mgr w) \<noteq> None \<and> quiescent w"

definition connection_open :: "world \<Rightarrow> bool" where
  "connection_open w \<longleftrightarrow>
     isConnected (mgr w) \<and>
     (case socket (mgr w) of None \<Rightarrow> False | Some i \<Rightarrow> readyState w i = Some OPEN)"

text \<open>A page whose callbacks never throw and make no calls, for concrete runs.\<close>

definition quiet :: "handler \<Rightarrow> payload \<Rightarrow> bool" where
  "quiet cb p = False"

definition no_calls :: "handler \<Rightarrow> payload \<Rightarrow> call list" where
  "no_calls cb p = []"

definition plain_key :: "jsval \<Rightarrow> string" where
  "plain_key v = ''[object Object]''"

definition demo_page :: world where
  "demo_page = page_ready quiet no_calls plain_key False"

text \<open>
  Three moments of that page: its first socket has opened; its first socket has
  closed uncleanly and the first reconnect timer is pending; and, with that timer still
  pending, a script has called \<open>connect\<close> and the new socket has opened.
\<close>

definition connected_page :: world where
  "connected_page = run [SocketOpen 0] demo_page"

definition dropped_page :: world where
  "dropped_page = run [SocketClose 0 False] demo_page"

definition reopened_page :: world where
  "reopened_page = run [SocketClose 0 False, CallConnect, SocketOpen 1] demo_page"

text \<open>The manager's socket is one of the page's, or there is none yet.\<close>

definition socket_known :: "world \<Rightarrow> bool" where
  "socket_known w \<longleftrightarrow>
     (case socket (mgr w) of
        None \<Rightarrow> \<not> isConnected (mgr w) \<and> sockets w = []
      | Some i \<Rightarrow> i < length (sockets w))"

text \<open>A frame as the server sends it, and its \<open>data\<close> field.\<close>

definition result_data :: jsval where
  "result_data = JObj [(''sentiment'', JStr ''positive'')]"

definition result_envelope :: jsval where
  "result_envelope = JObj [(''type'', JStr ''analysis_result''), (''data'', result_data)]"

text \<open>
  One connection failing, up to the close and no further; and the page on which the
  fifth connection in a row has just closed.
\<close>

definition unclean_close :: "world \<Rightarrow> world" where
  "unclean_close w =
     (case socket (mgr w) of
        None \<Rightarrow> w
      | Some i \<Rightarrow> (case step (SocketClose i False) w of None \<Rightarrow> w | Some w1 \<Rightarrow> w1))"

definition fifth_close_page :: world where
  "fifth_close_page = unclean_close ((abnormal_close ^^ 4) demo_page)"







definition listening_page :: world where
  "listening_page = run [CallOn ''message'' 7, SocketOpen 0] demo_page"

section \<open>SentimentApp.analyzeText\<close>

text \<open>
  \<open>analyzeText\<close> is an \<open>async\<close> function with one suspension point that matters, the
  \<open>await fetch\<close>: it either completes within the call or is left suspended there, and
  \<open>analyzeText_resume\<close> is the rest of its body, run when the fetch settles. Other
  callbacks of the page may run in between. A response is the way the fetch and the
  two steps after it come out: the fetch rejects, the status is not ok, the body is not
  JSON, or a result arrives, with its \<open>error\<close> field if it has a truthy one and with
  the exception its rendering raises if it raises one. Text is a string of 8-bit code
  units. The toast container is taken to be in the document.
\<close>

datatype app_effect =
    Fetch string bool
  | AppToast string string string
  | AppConsoleError string
  | Render

datatype response =
    Rejected string
  | HttpStatus string
  | BadJson string
  | Delivered "string option" "string option"

datatype pending = Completed | Suspended

record page =
  isAnalyzing :: bool
  analyzeBtn :: "bool option"
  realtimeToggle :: "bool option"
  resultsSection :: "bool option"
  textArea :: "string option"
  charCount :: "nat option"
  wsManager :: "world option"
  window_wsManager :: bool
  out :: "app_effect list"

definition is_space :: "char \<Rightarrow> bool" where
  "is_space c = (of_char c \<in> {9, 10, 11, 12, 13, 32, 160 :: nat})"

definition trim :: "string \<Rightarrow> string" where
  "trim s = rev (dropWhile is_space (rev (dropWhile is_space s)))"

definition setAnalyzeButtonState :: "bool \<Rightarrow> page \<Rightarrow> page" where
  "setAnalyzeButtonState isLoading p =
     (case analyzeBtn p of None \<Rightarrow> p | Some b \<Rightarrow> p\<lparr>analyzeBtn := Some isLoading\<rparr>)"

definition app_showToast :: "string \<Rightarrow> string \<Rightarrow> string \<Rightarrow> page \<Rightarrow> page" where
  "app_showToast title message kind p = p\<lparr>out := out p @ [AppToast title message kind]\<rparr>"

definition analyzeTextWebSocket :: "string \<Rightarrow> page \<Rightarrow> js_error + (bool \<times> page)" where
  "analyzeTextWebSocket text p =
     (case wsManager p of
        None \<Rightarrow> Inr (False, p)
      | Some m \<Rightarrow>
          if \<not> isConnected (mgr m) then Inr (False, p)
          else
            (case send ''analyze_text'' (JObj [(''text'', JStr text)]) m of
               Inl e \<Rightarrow> Inl e
             | Inr (b, m') \<Rightarrow> Inr (b, p\<lparr>wsManager := Some m'\<rparr>)))"

definition displayAnalysisResult :: "string option \<Rightarrow> string option \<Rightarrow> page \<Rightarrow> string + page" where
  "displayAnalysisResult err broken p =
     (case err of
        Some e \<Rightarrow> Inr (app_showToast ''Analysis Error'' e ''error'' p)
      | None \<Rightarrow>
          (case broken of
             Some msg \<Rightarrow> Inl msg
           | None \<Rightarrow>
               Inr ((p\<lparr>out := out p @ [Render]\<rparr>)
                     \<lparr>resultsSection := map_option (\<lambda>shown. True) (resultsSection p)\<rparr>)))"

definition catch_block :: "string \<Rightarrow> page \<Rightarrow> page" where
  "catch_block message p =
     app_showToast ''Analysis Error'' message ''error'' (p\<lparr>out := out p @ [AppConsoleError ''Analysis error:'']\<rparr>)"

definition finally_block :: "bool \<Rightarrow> page \<Rightarrow> page" where
  "finally_block isRealtime p =
     (if \<not> isRealtime then setAnalyzeButtonState False (p\<lparr>isAnalyzing := False\<rparr>) else p)"

definition ws_connected :: "page \<Rightarrow> bool" where
  "ws_connected p =
     (window_wsManager p \<and> (case wsManager p of None \<Rightarrow> False | Some m \<Rightarrow> isConnected (mgr m)))"

definition await_fetch :: "string \<Rightarrow> bool \<Rightarrow> page \<Rightarrow> page \<times> pending" where
  "await_fetch text isRealtime p = (p\<lparr>out := out p @ [Fetch text (\<not> isRealtime)]\<rparr>, Suspended)"

definition analyzeText :: "string \<Rightarrow> bool \<Rightarrow> page \<Rightarrow> page \<times> pending" where
  "analyzeText text isRealtime p =
     (if text = [] \<or> length (trim text) = 0 then (setAnalyzeButtonState False p, Completed)
      else if isAnalyzing p \<and> \<not> isRealtime then (p, Completed)
      else
        let p1 = setAnalyzeButtonState True (p\<lparr>isAnalyzing := True\<rparr>)
        in if realtimeToggle p = Some True \<and> ws_connected p1
           then
             (case analyzeTextWebSocket text p1 of
                Inl e \<Rightarrow> (finally_block isRealtime (catch_block ''TypeError'' p1), Completed)
              | Inr (success, p2) \<Rightarrow>
                  if success then (finally_block isRealtime p2, Completed)
                  else await_fetch text isRealtime p2)
           else await_fetch text isRealtime p1)"

definition analyzeText_resume :: "response \<Rightarrow> bool \<Rightarrow> page \<Rightarrow> page" where
  "analyzeText_resume resp isRealtime p =
     finally_block isRealtime
       (case resp of
          Rejected message \<Rightarrow> catch_block message p
        | HttpStatus line \<Rightarrow> catch_block (''HTTP '' @ line) p
        | BadJson message \<Rightarrow> catch_block message p
        | Delivered err broken \<Rightarrow>
            (case displayAnalysisResult err broken p of
               Inl message \<Rightarrow> catch_block message p
             | Inr p1 \<Rightarrow>
                 if \<not> isRealtime
                 then (case resultsSection p1 of
                         None \<Rightarrow> catch_block ''TypeError'' p1
                       | Some shown \<Rightarrow> p1\<lparr>resultsSection := Some True\<rparr>)
                 else p1))"

definition SentimentApp :: "bool \<Rightarrow> page" where
  "SentimentApp checked =
     \<lparr>isAnalyzing = False, analyzeBtn = Some False, realtimeToggle = Some checked,
      resultsSection = Some False, textArea = Some [], charCount = Some 0,
      wsManager = None, window_wsManager = False, out = []\<rparr>"



text \<open>The whole attempt when nothing else runs while the fetch is pending.\<close>

definition analyzeText_settled :: "string \<Rightarrow> bool \<Rightarrow> response \<Rightarrow> page \<Rightarrow> page" where
  "analyzeText_settled text isRealtime resp p =
     (case analyzeText text isRealtime p of
        (p', Completed) \<Rightarrow> p'
      | (p', Suspended) \<Rightarrow> analyzeText_resume resp isRealtime p')"








definition review_text :: string where
  "review_text = ''This is good product review text''"







section \<open>SentimentApp.debounce\<close>

text \<open>
  The closure that \<open>debounce(func, wait)\<close> returns, on a page with a clock in
  milliseconds. The page keeps the pending timers with their handle, the time they are
  due and the arguments their \<open>later\<close> was made with; the closure keeps \<open>timeout\<close>;
  \<open>calls\<close> logs when \<open>func\<close> was called and with what. A timer runs in the
  millisecond it is due, and \<open>func\<close> is taken not to call the trigger itself.
\<close>

record 'a timer_page =
  now :: nat
  next_id :: nat
  queue :: "(nat \<times> nat \<times> 'a) list"
  timeout :: "nat option"
  calls :: "(nat \<times> 'a) list"

definition clearTimeout :: "nat option \<Rightarrow> 'a timer_page \<Rightarrow> 'a timer_page" where
  "clearTimeout h s =
     (case h of
        None \<Rightarrow> s
      | Some i \<Rightarrow> s\<lparr>queue := filter (\<lambda>e. fst e \<noteq> i) (queue s)\<rparr>)"

definition setTimeout :: "'a \<Rightarrow> nat \<Rightarrow> 'a timer_page \<Rightarrow> nat \<times> 'a timer_page" where
  "setTimeout args wait s =
     (next_id s, s\<lparr>queue := queue s @ [(next_id s, now s + wait, args)], next_id := Suc (next_id s)\<rparr>)"

definition later :: "'a \<Rightarrow> 'a timer_page \<Rightarrow> 'a timer_page" where
  "later args s =
     (let s1 = clearTimeout (timeout s) s
      in s1\<lparr>calls := calls s1 @ [(now s1, args)]\<rparr>)"

definition debounced :: "nat \<Rightarrow> 'a \<Rightarrow> 'a timer_page \<Rightarrow> 'a timer_page" where
  "debounced wait args s =
     (let s1 = clearTimeout (timeout s) s;
          (h, s2) = setTimeout args wait s1
      in s2\<lparr>timeout := Some h\<rparr>)"

definition cancel :: "'a timer_page \<Rightarrow> 'a timer_page" where
  "cancel s = clearTimeout (timeout s) s"

function fire_due :: "'a timer_page \<Rightarrow> 'a timer_page" where
  "fire_due s =
     (case find (\<lambda>e. fst (snd e) \<le> now s) (queue s) of
        None \<Rightarrow> s
      | Some e \<Rightarrow> fire_due (later (snd (snd e)) (s\<lparr>queue := filter (\<lambda>x. fst x \<noteq> fst e) (queue s)\<rparr>)))"
  by pat_completeness auto
termination
proof (relation "measure (\<lambda>s. length (queue s))")
  show "wf (measure (\<lambda>s. length (queue s)))" by simp
next
  fix s :: "'a timer_page" and e
  assume "find (\<lambda>e. fst (snd e) \<le> now s) (queue s) = Some e"
  then have "e \<in> set (queue s)"
    by (auto simp: find_Some_iff)
  then have "length (filter (\<lambda>x. fst x \<noteq> fst e) (queue s)) < length (queue s)"
    by (metis (mono_tags, lifting) length_filter_less)
  moreover have "length (queue (clearTimeout h t)) \<le> length (queue t)" for h and t :: "'a timer_page"
    by (simp add: clearTimeout_def split: option.split)
  then have "length (queue (later a t)) \<le> length (queue t)" for a and t :: "'a timer_page"
    by (simp add: later_def Let_def)
  from this [of "snd (snd e)" "s\<lparr>queue := filter (\<lambda>x. fst x \<noteq> fst e) (queue s)\<rparr>"]
  have "length (queue (later (snd (snd e)) (s\<lparr>queue := filter (\<lambda>x. fst x \<noteq> fst e) (queue s)\<rparr>)))
      \<le> length (filter (\<lambda>x. fst x \<noteq> fst e) (queue s))"
    by simp
  ultimately show "(later (snd (snd e)) (s\<lparr>queue := filter (\<lambda>x. fst x \<noteq> fst e) (queue s)\<rparr>), s)
      \<in> measure (\<lambda>s. length (queue s))"
    by simp
qed

definition tick :: "'a timer_page \<Rightarrow> 'a timer_page" where
  "tick s = fire_due (s\<lparr>now := Suc (now s)\<rparr>)"

definition advance :: "nat \<Rightarrow> 'a timer_page \<Rightarrow> 'a timer_page" where
  "advance d s = (tick ^^ d) s"

fun burst :: "nat \<Rightarrow> (nat \<times> 'a) list \<Rightarrow> 'a timer_page \<Rightarrow> 'a timer_page" where
  "burst wait [] s = s"
| "burst wait ((gap, args) # cs) s = burst wait cs (debounced wait args (advance gap s))"

definition debounce :: "nat \<Rightarrow> 'a timer_page" where
  "debounce t0 = \<lparr>now = t0, next_id = 0, queue = [], timeout = None, calls = []\<rparr>"

text \<open>The timer of the latest call is the only one pending and is not yet due.\<close>

definition armed :: "nat \<Rightarrow> 'a \<Rightarrow> 'a timer_page \<Rightarrow> bool" where
  "armed due args s \<longleftrightarrow> (\<exists>h. queue s = [(h, due, args)] \<and> timeout s = Some h) \<and> now s < due"

section \<open>Properties\<close>

subsection \<open>What a callback can and cannot change\<close>

lemma fixed_events_not_inherited:
  "''connected'' \<notin> set object_prototype_keys"
  "''disconnected'' \<notin> set object_prototype_keys"
  "''error'' \<notin> set object_prototype_keys"
  "''message'' \<notin> set object_prototype_keys"
  by (simp_all add: object_prototype_keys_def)

lemma scheduled_append: "scheduled (xs @ ys) = scheduled xs @ scheduled ys"
  by (induction xs rule: scheduled.induct) simp_all

lemma invocations_append: "invocations (xs @ ys) = invocations xs @ invocations ys"
  by (induction xs rule: invocations.induct) simp_all


lemma kept_refl: "kept w w"
  by (simp add: kept_def)

lemma kept_trans: "kept a b \<Longrightarrow> kept b c \<Longrightarrow> kept a c"
  by (simp add: kept_def)

lemma kept_on: "on ev cb w = Inr w' \<Longrightarrow> kept w w'"
  by (auto simp: on_def kept_def split: option.splits if_splits)

lemma kept_off: "off ev cb w = Inr w' \<Longrightarrow> kept w w'"
  by (auto simp: off_def kept_def split: option.splits if_splits)

lemma trace_on: "on ev cb w = Inr w' \<Longrightarrow> trace w' = trace w"
  by (auto simp: on_def split: option.splits if_splits)

lemma trace_off: "off ev cb w = Inr w' \<Longrightarrow> trace w' = trace w"
  by (auto simp: off_def split: option.splits if_splits)

lemma perform_kept: "kept w (fst (perform cs w)) \<and> trace (fst (perform cs w)) = trace w"
proof (induction cs arbitrary: w)
  case Nil
  show ?case by (simp add: kept_refl)
next
  case (Cons c cs)
  show ?case
  proof (cases c)
    case (Register ev cb)
    show ?thesis
    proof (cases "on ev cb w")
      case (Inl e)
      with Register show ?thesis by (simp add: kept_refl)
    next
      case (Inr w')
      from Cons.IH [of w'] kept_on [OF Inr] trace_on [OF Inr] Register Inr
      show ?thesis by (auto intro: kept_trans)
    qed
  next
    case (Unregister ev cb)
    show ?thesis
    proof (cases "off ev cb w")
      case (Inl e)
      with Unregister show ?thesis by (simp add: kept_refl)
    next
      case (Inr w')
      from Cons.IH [of w'] kept_off [OF Inr] trace_off [OF Inr] Unregister Inr
      show ?thesis by (auto intro: kept_trans)
    qed
  qed
qed

lemma kept_log_invoke: "kept w (log (Invoke cb p) w)"
  by (simp add: kept_def log_def scheduled_append)

lemma kept_log_error: "kept w (log (ConsoleError m) w)"
  by (simp add: kept_def log_def scheduled_append)

lemma kept_callback: "kept w (callback ev cb p w)"
proof -
  let ?w0 = "log (Invoke cb p) w"
  obtain w1 threw where r: "perform (acts w cb p) ?w0 = (w1, threw)"
    by (cases "perform (acts w cb p) ?w0")
  from perform_kept [of ?w0 "acts w cb p"] r have "kept ?w0 w1" by simp
  with kept_log_invoke [of w cb p] have k: "kept w w1" by (rule kept_trans)
  from kept_trans [OF k kept_log_error] k r show ?thesis
    by (simp add: callback_def)
qed

lemma invocations_callback:
  "invocations (trace (callback ev cb p w)) = invocations (trace w) @ [(cb, p)]"
proof -
  let ?w0 = "log (Invoke cb p) w"
  obtain w1 threw where r: "perform (acts w cb p) ?w0 = (w1, threw)"
    by (cases "perform (acts w cb p) ?w0")
  from perform_kept [of ?w0 "acts w cb p"] r have "trace w1 = trace ?w0" by simp
  with r show ?thesis
    by (simp add: callback_def log_def invocations_append)
qed

lemma kept_forEach: "kept w (forEach_listeners ev p n k w)"
proof (induction n arbitrary: k w)
  case 0
  show ?case by (simp add: kept_refl)
next
  case (Suc n)
  let ?v = "case listeners (mgr w) ev of
          None \<Rightarrow> w
        | Some cbs \<Rightarrow> if k < length cbs then callback ev (cbs ! k) p w else w"
  have "kept w ?v"
    by (simp add: kept_refl kept_callback split: option.split)
  from kept_trans [OF this Suc.IH [of ?v "Suc k"]] show ?case by simp
qed

lemma invocations_forEach:
  "\<exists>cbs. invocations (trace (forEach_listeners ev p n k w)) =
     invocations (trace w) @ map (\<lambda>cb. (cb, p)) cbs"
proof (induction n arbitrary: k w)
  case 0
  have "invocations (trace w) = invocations (trace w) @ map (\<lambda>cb. (cb, p)) []" by simp
  then show ?case by (simp only: forEach_listeners.simps) blast
next
  case (Suc n)
  let ?v = "case listeners (mgr w) ev of
          None \<Rightarrow> w
        | Some cbs \<Rightarrow> if k < length cbs then callback ev (cbs ! k) p w else w"
  have "\<exists>xs. invocations (trace ?v) = invocations (trace w) @ map (\<lambda>cb. (cb, p)) xs"
  proof (cases "listeners (mgr w) ev")
    case None
    have "invocations (trace w) = invocations (trace w) @ map (\<lambda>cb. (cb, p)) []" by simp
    with None show ?thesis by (simp only: option.case) blast
  next
    case (Some cbs)
    show ?thesis
    proof (cases "k < length cbs")
      case True
      have "invocations (trace (callback ev (cbs ! k) p w)) =
          invocations (trace w) @ map (\<lambda>cb. (cb, p)) [cbs ! k]"
        by (simp add: invocations_callback)
      with Some True show ?thesis by (simp only: option.case if_True) blast
    next
      case False
      have "invocations (trace w) = invocations (trace w) @ map (\<lambda>cb. (cb, p)) []" by simp
      with Some False show ?thesis by (simp only: option.case if_False) blast
    qed
  qed
  then obtain xs where xs: "invocations (trace ?v) = invocations (trace w) @ map (\<lambda>cb. (cb, p)) xs"
    by blast
  from Suc.IH [of "Suc k" ?v] obtain ys where
    "invocations (trace (forEach_listeners ev p n (Suc k) ?v)) =
       invocations (trace ?v) @ map (\<lambda>cb. (cb, p)) ys" by blast
  with xs have "invocations (trace (forEach_listeners ev p (Suc n) k w)) =
      invocations (trace w) @ map (\<lambda>cb. (cb, p)) (xs @ ys)"
    by simp
  then show ?case by blast
qed

lemma emit_own:
  "ev \<notin> set object_prototype_keys \<Longrightarrow> emit ev p w = Inr (emitted ev p w)"
  by (simp add: emitted_def emit_def split: option.split)

lemma emit_Inr: "emit ev p w = Inr w' \<Longrightarrow> w' = emitted ev p w"
  by (simp add: emitted_def)

lemma kept_emitted: "kept w (emitted ev p w)"
  by (simp add: emitted_def emit_def kept_refl kept_forEach split: option.split)

lemma emitted_frame:
  "sockets (emitted ev p w) = sockets w" "timers (emitted ev p w) = timers w"
  "indicator (emitted ev p w) = indicator w" "throws (emitted ev p w) = throws w"
  "acts (emitted ev p w) = acts w" "to_key (emitted ev p w) = to_key w"
  "ctor_fails (emitted ev p w) = ctor_fails w"
  "socket (mgr (emitted ev p w)) = socket (mgr w)"
  "isConnected (mgr (emitted ev p w)) = isConnected (mgr w)"
  "reconnectAttempts (mgr (emitted ev p w)) = reconnectAttempts (mgr w)"
  "maxReconnectAttempts (mgr (emitted ev p w)) = maxReconnectAttempts (mgr w)"
  "reconnectInterval (mgr (emitted ev p w)) = reconnectInterval (mgr w)"
  "scheduled (trace (emitted ev p w)) = scheduled (trace w)"
  using kept_emitted [of w ev p] by (simp_all add: kept_def)

lemma invocations_emitted:
  "\<exists>cbs. invocations (trace (emitted ev p w)) = invocations (trace w) @ map (\<lambda>cb. (cb, p)) cbs"
proof (cases "emit ev p w")
  case (Inl e)
  have "invocations (trace w) = invocations (trace w) @ map (\<lambda>cb. (cb, p)) []" by simp
  with Inl show ?thesis by (simp only: emitted_def sum.case) blast
next
  case (Inr w')
  show ?thesis
  proof (cases "listeners (mgr w) ev")
    case None
    have "invocations (trace w) = invocations (trace w) @ map (\<lambda>cb. (cb, p)) []" by simp
    moreover from None Inr have "emitted ev p w = w"
      by (auto simp: emitted_def emit_def split: if_splits)
    ultimately show ?thesis by (simp only:) blast
  next
    case (Some cbs)
    then have "emitted ev p w = forEach_listeners ev p (length cbs) 0 w"
      by (simp add: emitted_def emit_def)
    with invocations_forEach [of ev p "length cbs" 0 w] show ?thesis by simp
  qed
qed

subsection \<open>Callbacks that make no calls\<close>

lemma dispatch_log_append:
  "dispatch_log thr ev p (xs @ ys) = dispatch_log thr ev p xs @ dispatch_log thr ev p ys"
  by (induction xs) simp_all

lemma callback_inert:
  "acts w cb p = [] \<Longrightarrow>
   callback ev cb p w = w\<lparr>trace := trace w @ dispatch_log (throws w) ev p [cb]\<rparr>"
  by (simp add: callback_def log_def)

lemma forEach_inert:
  assumes "listeners (mgr w) ev = Some cbs" "\<forall>cb \<in> set cbs. acts w cb p = []"
  shows "forEach_listeners ev p n k w =
     w\<lparr>trace := trace w @ dispatch_log (throws w) ev p (take n (drop k cbs))\<rparr>"
  using assms
proof (induction n arbitrary: k w)
  case 0
  show ?case by simp
next
  case (Suc n)
  show ?case
  proof (cases "k < length cbs")
    case True
    let ?w1 = "w\<lparr>trace := trace w @ dispatch_log (throws w) ev p [cbs ! k]\<rparr>"
    from nth_mem [OF True] Suc.prems(2) have "acts w (cbs ! k) p = []" by blast
    then have c: "callback ev (cbs ! k) p w = ?w1" by (rule callback_inert)
    have "listeners (mgr ?w1) ev = Some cbs" "\<forall>cb \<in> set cbs. acts ?w1 cb p = []"
      using Suc.prems by simp_all
    from Suc.IH [OF this, of "Suc k"]
    have "forEach_listeners ev p n (Suc k) ?w1 =
        w\<lparr>trace := trace w @ dispatch_log (throws w) ev p [cbs ! k] @
                  dispatch_log (throws w) ev p (take n (drop (Suc k) cbs))\<rparr>"
      by simp
    moreover have "take (Suc n) (drop k cbs) = cbs ! k # take n (drop (Suc k) cbs)"
      using True by (simp add: Cons_nth_drop_Suc [symmetric])
    ultimately show ?thesis
      using Suc.prems(1) True c by simp
  next
    case False
    from Suc.IH [OF Suc.prems, of "Suc k"] Suc.prems(1) False show ?thesis by simp
  qed
qed

lemma emitted_inert:
  assumes "\<forall>cb \<in> set (registered w ev). acts w cb p = []"
  shows "emitted ev p w = w\<lparr>trace := trace w @ dispatch_log (throws w) ev p (registered w ev)\<rparr>"
proof (cases "listeners (mgr w) ev")
  case None
  then show ?thesis
    by (simp add: emitted_def emit_def registered_def)
next
  case (Some cbs)
  with assms have "\<forall>cb \<in> set cbs. acts w cb p = []" by (simp add: registered_def)
  from forEach_inert [OF Some this, of "length cbs" 0] Some show ?thesis
    by (simp add: emitted_def emit_def registered_def)
qed

lemma invocations_dispatch:
  "invocations (dispatch_log thr ev p cbs) = map (\<lambda>cb. (cb, p)) cbs"
  by (induction cbs) (simp_all add: invocations_append)


subsection \<open>Callbacks that leave the list of their event alone\<close>




subsection \<open>The socket's callbacks, unfolded\<close>

lemma onclose_unfold:
  "onclose wasClean w =
     (let w3 = emitted ''disconnected'' (CloseEvent wasClean)
                 (w\<lparr>mgr := (mgr w)\<lparr>isConnected := False\<rparr>, indicator := Disconnected\<rparr>)
      in if \<not> wasClean \<and> reconnectAttempts (mgr w) < maxReconnectAttempts (mgr w)
         then scheduleReconnect w3
         else if reconnectAttempts (mgr w) \<ge> maxReconnectAttempts (mgr w)
         then updateConnectionStatus Error (showToast ''Connection Failed'' ''error'' w3)
         else w3)"
  by (simp add: onclose_def Let_def updateConnectionStatus_def emit_own fixed_events_not_inherited
      emitted_frame)

lemma onopen_unfold:
  "onopen w =
     emitted ''connected'' OpenEvent
       (w\<lparr>mgr := (mgr w)\<lparr>isConnected := True, reconnectAttempts := 0, reconnectInterval := 1000\<rparr>,
          indicator := Connected, trace := trace w @ [Toast ''Connected'' ''success'']\<rparr>)"
  by (simp add: onopen_def Let_def updateConnectionStatus_def showToast_def log_def emit_own
      fixed_events_not_inherited)

lemma onerror_unfold:
  "onerror w =
     emitted ''error'' ErrorEvent
       (w\<lparr>trace := trace w @ [ConsoleError ''WebSocket error:''], indicator := Error\<rparr>)"
  by (simp add: onerror_def Let_def updateConnectionStatus_def log_def emit_own
      fixed_events_not_inherited)

lemma onmessage_json:
  "d \<noteq> JNull \<Longrightarrow>
   onmessage (Json d) w =
     (let w1 = emitted ''message'' (Data d) w
      in case emit (type_key w1 d) (Data d) w1 of Inl e \<Rightarrow> parse_error w1 | Inr w2 \<Rightarrow> w2)"
  by (cases d) (simp_all add: onmessage_def emit_own fixed_events_not_inherited Let_def)

lemma kept_onmessage: "kept w (onmessage fr w)"
proof -
  have pe: "kept v (parse_error v)" for v
    unfolding parse_error_def by (rule kept_log_error)
  have em: "kept v (case emit ev p v of Inl e \<Rightarrow> parse_error v | Inr w2 \<Rightarrow> w2)" for v ev p
  proof (cases "emit ev p v")
    case (Inl e)
    with pe show ?thesis by simp
  next
    case (Inr w2)
    from emit_Inr [OF this] Inr show ?thesis by (simp add: kept_emitted)
  qed
  show ?thesis
  proof (cases fr)
    case Malformed
    then show ?thesis by (simp add: onmessage_def pe)
  next
    case (Json d)
    show ?thesis
    proof (cases "d = JNull")
      case True
      with Json show ?thesis by (simp add: onmessage_def pe)
    next
      case False
      let ?w1 = "emitted ''message'' (Data d) w"
      from kept_trans [OF kept_emitted em, of w "''message''" "Data d" "type_key ?w1 d" "Data d"]
        Json onmessage_json [OF False, of w]
      show ?thesis by (simp add: Let_def)
    qed
  qed
qed

lemma onmessage_frame:
  "sockets (onmessage fr w) = sockets w" "timers (onmessage fr w) = timers w"
  "socket (mgr (onmessage fr w)) = socket (mgr w)"
  "isConnected (mgr (onmessage fr w)) = isConnected (mgr w)"
  "reconnectAttempts (mgr (onmessage fr w)) = reconnectAttempts (mgr w)"
  "maxReconnectAttempts (mgr (onmessage fr w)) = maxReconnectAttempts (mgr w)"
  using kept_onmessage [of w fr] by (simp_all add: kept_def)

lemma send_frame:
  "send ty d w = Inr (b, w') \<Longrightarrow> mgr w' = mgr w \<and> sockets w' = sockets w \<and> timers w' = timers w"
  by (auto simp: send_def log_def Let_def split: if_splits option.splits)

lemma on_frame:
  "on ev cb w = Inr w' \<Longrightarrow>
   socket (mgr w') = socket (mgr w) \<and> isConnected (mgr w') = isConnected (mgr w) \<and>
   reconnectAttempts (mgr w') = reconnectAttempts (mgr w) \<and>
   maxReconnectAttempts (mgr w') = maxReconnectAttempts (mgr w) \<and>
   sockets w' = sockets w \<and> timers w' = timers w"
  by (drule kept_on) (simp add: kept_def)

lemma off_frame:
  "off ev cb w = Inr w' \<Longrightarrow>
   socket (mgr w') = socket (mgr w) \<and> isConnected (mgr w') = isConnected (mgr w) \<and>
   reconnectAttempts (mgr w') = reconnectAttempts (mgr w) \<and>
   maxReconnectAttempts (mgr w') = maxReconnectAttempts (mgr w) \<and>
   sockets w' = sockets w \<and> timers w' = timers w"
  by (drule kept_off) (simp add: kept_def)

lemma connect_frame:
  "reconnectAttempts (mgr (connect w)) = reconnectAttempts (mgr w)"
  "maxReconnectAttempts (mgr (connect w)) = maxReconnectAttempts (mgr w)"
  "isConnected (mgr (connect w)) = isConnected (mgr w)"
  by (simp_all add: connect_def updateConnectionStatus_def log_def)

lemma close_frame: "mgr (close w) = mgr w"
  by (simp add: close_def split: option.split)

lemma onclose_attempts:
  "maxReconnectAttempts (mgr (onclose wasClean w)) = maxReconnectAttempts (mgr w)"
  "reconnectAttempts (mgr w) \<le> maxReconnectAttempts (mgr w) \<Longrightarrow>
   reconnectAttempts (mgr (onclose wasClean w)) \<le> maxReconnectAttempts (mgr w)"
  by (simp_all add: onclose_unfold Let_def scheduleReconnect_def showToast_def log_def
      updateConnectionStatus_def emitted_frame)

subsection \<open>Consecutive failed connections\<close>

lemma closed_update:
  "Suc i = length xs \<Longrightarrow> list_all (\<lambda>r. r = CLOSED) (butlast xs) \<Longrightarrow>
   list_all (\<lambda>r. r = CLOSED) (xs[i := CLOSED])"
proof -
  assume a: "Suc i = length xs" "list_all (\<lambda>r. r = CLOSED) (butlast xs)"
  then have "xs \<noteq> []" by auto
  then have "xs = butlast xs @ [last xs]" by simp
  moreover have "i = length (butlast xs)" using a(1) by simp
  ultimately have "xs[i := CLOSED] = butlast xs @ [CLOSED]"
    by (metis list_update_length)
  with a(2) show ?thesis by simp
qed

lemma unclean_close_retry:
  assumes "retrying a w" "a < 5"
  shows "reconnectAttempts (mgr (unclean_close w)) = Suc a"
    and "maxReconnectAttempts (mgr (unclean_close w)) = 5"
    and "indicator (unclean_close w) = Disconnected"
    and "timers (unclean_close w) = [backoff (Suc a)]"
    and "abnormal_close w = run [TimerFire 0] (unclean_close w)"
proof -
  from assms obtain i where i: "socket (mgr w) = Some i" "alive w i" "Suc i = length (sockets w)"
    by (auto simp: retrying_def split: option.splits)
  from assms have f: "reconnectAttempts (mgr w) = a" "maxReconnectAttempts (mgr w) = 5"
     "reconnectInterval (mgr w) = 1000" "timers w = []"
    by (simp_all add: retrying_def)
  show "reconnectAttempts (mgr (unclean_close w)) = Suc a"
    using i f assms(2)
    by (simp add: unclean_close_def onclose_unfold Let_def scheduleReconnect_def showToast_def
        log_def emitted_frame)
  show "maxReconnectAttempts (mgr (unclean_close w)) = 5"
    using i f assms(2)
    by (simp add: unclean_close_def onclose_unfold Let_def scheduleReconnect_def showToast_def
        log_def emitted_frame)
  show "indicator (unclean_close w) = Disconnected"
    using i f assms(2)
    by (simp add: unclean_close_def onclose_unfold Let_def scheduleReconnect_def showToast_def
        log_def emitted_frame)
  show "timers (unclean_close w) = [backoff (Suc a)]"
    using i f assms(2)
    by (simp add: unclean_close_def onclose_unfold Let_def scheduleReconnect_def showToast_def
        log_def emitted_frame backoff_def)
  then show "abnormal_close w = run [TimerFire 0] (unclean_close w)"
    using i by (simp add: unclean_close_def abnormal_close_def split: option.splits)
qed

lemma abnormal_close_retry:
  assumes "retrying a w" "a < 5"
  shows "retrying (Suc a) (abnormal_close w)"
    and "scheduled (trace (abnormal_close w)) = scheduled (trace w) @ [backoff (Suc a)]"
proof -
  from assms obtain i where i: "socket (mgr w) = Some i" "alive w i" "Suc i = length (sockets w)"
      "list_all (\<lambda>r. r = CLOSED) (butlast (sockets w))"
    by (auto simp: retrying_def split: option.splits)
  from i(3) have len: "i < length (sockets w)" by simp
  from assms have f: "reconnectAttempts (mgr w) = a" "maxReconnectAttempts (mgr w) = 5"
     "reconnectInterval (mgr w) = 1000" "timers w = []" "\<not> ctor_fails w"
    by (simp_all add: retrying_def)
  note cl = closed_update [OF i(3) i(4)]
  show "retrying (Suc a) (abnormal_close w)"
    using i len f assms(2) cl
    by (simp add: abnormal_close_def onclose_unfold Let_def scheduleReconnect_def showToast_def
        log_def reconnect_timer_def connect_def retrying_def alive_def readyState_def nth_append
        emitted_frame)
  show "scheduled (trace (abnormal_close w)) = scheduled (trace w) @ [backoff (Suc a)]"
    using i len f assms(2)
    by (simp add: abnormal_close_def onclose_unfold Let_def scheduleReconnect_def showToast_def
        log_def reconnect_timer_def connect_def scheduled_append emitted_frame backoff_def)
qed

lemma abnormal_close_last:
  assumes "retrying 5 w"
  shows "given_up (abnormal_close w)"
    and "scheduled (trace (abnormal_close w)) = scheduled (trace w)"
proof -
  from assms obtain i where i: "socket (mgr w) = Some i" "alive w i" "Suc i = length (sockets w)"
      "list_all (\<lambda>r. r = CLOSED) (butlast (sockets w))"
    by (auto simp: retrying_def split: option.splits)
  from i(3) have len: "i < length (sockets w)" by simp
  from assms have f: "reconnectAttempts (mgr w) = 5" "maxReconnectAttempts (mgr w) = 5"
     "timers w = []"
    by (simp_all add: retrying_def)
  note cl = closed_update [OF i(3) i(4)]
  show "given_up (abnormal_close w)"
    using i len f cl
    by (simp add: abnormal_close_def onclose_unfold Let_def showToast_def updateConnectionStatus_def
        log_def given_up_def quiescent_def alive_def readyState_def emitted_frame)
  show "scheduled (trace (abnormal_close w)) = scheduled (trace w)"
    using i len f
    by (simp add: abnormal_close_def onclose_unfold Let_def showToast_def updateConnectionStatus_def
        log_def scheduled_append emitted_frame)
qed

lemma quiescent_not_alive: "quiescent w \<Longrightarrow> \<not> alive w i"
  by (auto simp: quiescent_def alive_def readyState_def list_all_length)

lemma given_up_stuck: "given_up w \<Longrightarrow> abnormal_close w = w"
  by (auto simp: given_up_def abnormal_close_def quiescent_not_alive split: option.splits)

lemma given_up_funpow: "given_up w \<Longrightarrow> (abnormal_close ^^ k) w = w"
  by (induction k) (simp_all add: given_up_stuck)

lemma backoff_values:
  "backoff (Suc 0) = 2000" "backoff (Suc (Suc 0)) = 4000" "backoff 2 = 4000" "backoff 3 = 8000"
  "backoff 4 = 16000" "backoff 5 = 30000"
  by (simp_all add: backoff_def)

lemma drop_backoffs:
  "a < 5 \<Longrightarrow> drop a [2000, 4000, 8000, 16000, 30000] = backoff (Suc a) # drop (Suc a) [2000, 4000, 8000, 16000, 30000]"
proof -
  assume "a < 5"
  then consider "a = 0" | "a = 1" | "a = 2" | "a = 3" | "a = 4" by linarith
  then show ?thesis by cases (simp_all add: backoff_values)
qed

lemma abnormal_closes_scheduled:
  "retrying a w \<Longrightarrow> a \<le> 5 \<Longrightarrow>
   scheduled (trace ((abnormal_close ^^ k) w)) = scheduled (trace w) @ take k (drop a [2000, 4000, 8000, 16000, 30000])"
proof (induction k arbitrary: a w)
  case 0
  then show ?case by simp
next
  case (Suc k)
  show ?case
  proof (cases "a < 5")
    case True
    have "scheduled (trace ((abnormal_close ^^ k) (abnormal_close w))) =
          scheduled (trace (abnormal_close w)) @ take k (drop (Suc a) [2000, 4000, 8000, 16000, 30000])"
      using Suc.IH [OF abnormal_close_retry(1) [OF Suc.prems(1) True]] True by simp
    then show ?thesis
      using abnormal_close_retry(2) [OF Suc.prems(1) True] drop_backoffs [OF True]
      by (simp add: funpow_swap1)
  next
    case False
    with Suc.prems have a: "a = 5" by simp
    with Suc.prems have "retrying 5 w" by simp
    from abnormal_close_last [OF this] show ?thesis
      using a by (simp add: funpow_swap1 given_up_funpow)
  qed
qed

lemma page_ready_eval:
  "page_ready thr ac tk False =
     \<lparr>mgr = \<lparr>socket = Some 0, isConnected = False, reconnectAttempts = 0,
             maxReconnectAttempts = 5, reconnectInterval = 1000,
             listeners = [''initial_data'' \<mapsto> [0], ''analysis_result'' \<mapsto> [1], ''new_analysis'' \<mapsto> [2],
               ''analytics_update'' \<mapsto> [3], ''connected'' \<mapsto> [4], ''disconnected'' \<mapsto> [5], ''error'' \<mapsto> [6]]\<rparr>,
      sockets = [CONNECTING], timers = [], indicator = Connecting, trace = [],
      throws = thr, acts = ac, to_key = tk, ctor_fails = False\<rparr>"
  by (simp add: page_ready_def constructor_def connect_def on_def object_prototype_keys_def)

lemma page_ready_retrying: "retrying 0 (page_ready thr ac tk False)"
  by (simp add: page_ready_eval retrying_def alive_def readyState_def)

lemma page_ready_trace: "trace (page_ready thr ac tk False) = []"
  by (simp add: page_ready_eval)

lemma scheduleReconnect_delay:
  "timers (scheduleReconnect w) =
     timers w @ [min (reconnectInterval (mgr w) * 2 ^ Suc (reconnectAttempts (mgr w))) 30000]"
  by (simp add: scheduleReconnect_def Let_def showToast_def log_def)

lemma delays_armed_in_a_row:
  "retrying 0 w \<Longrightarrow>
   scheduled (trace ((abnormal_close ^^ k) w)) =
     scheduled (trace w) @ take k [2000, 4000, 8000, 16000, 30000]"
  using abnormal_closes_scheduled [of 0 w k] by simp

text \<open>
  C1. The constructor sets the interval to 1000 and comments it as the wait to start
  with; doubling from there, five retries would wait 1000, 2000, 4000, 8000, 16000.
  \<open>scheduleReconnect\<close> raises the counter before it computes the wait, so on the page
  as it is loaded five connections failing in a row arm 2000, 4000, 8000, 16000 and
  30000, the last cut at the cap. No sixth timer is armed: seven failures in a row
  arm the same five.
\<close>

theorem reconnect_delays_start_doubled:
  "timers (scheduleReconnect demo_page) = [2000] \<and>
   scheduled (trace ((abnormal_close ^^ 5) demo_page)) = [2000, 4000, 8000, 16000, 30000] \<and>
   scheduled (trace ((abnormal_close ^^ 5) demo_page)) \<noteq> [1000, 2000, 4000, 8000, 16000] \<and>
   scheduled (trace ((abnormal_close ^^ 7) demo_page)) = [2000, 4000, 8000, 16000, 30000]"
proof -
  have r: "retrying 0 demo_page"
    unfolding demo_page_def by (rule page_ready_retrying)
  have t: "trace demo_page = []"
    unfolding demo_page_def by (rule page_ready_trace)
  have a: "reconnectAttempts (mgr demo_page) = 0" "reconnectInterval (mgr demo_page) = 1000"
    "timers demo_page = []"
    using r by (simp_all add: retrying_def)
  show ?thesis
    using delays_armed_in_a_row [OF r, of 5] delays_armed_in_a_row [OF r, of 7] t a
    by (simp add: scheduleReconnect_delay)
qed

subsection \<open>The attempt counter over every run\<close>

lemma step_attempts:
  assumes "step e w = Some w'"
  shows "maxReconnectAttempts (mgr w') = maxReconnectAttempts (mgr w)"
    and "reconnectAttempts (mgr w) \<le> maxReconnectAttempts (mgr w) \<Longrightarrow>
         reconnectAttempts (mgr w') \<le> maxReconnectAttempts (mgr w)"
proof -
  show "maxReconnectAttempts (mgr w') = maxReconnectAttempts (mgr w)"
  proof (cases e)
    case (CallSend ty d)
    with assms show ?thesis by (auto split: sum.splits dest: send_frame)
  next
    case (CallOn ev cb)
    with assms show ?thesis by (auto split: sum.splits dest: on_frame)
  next
    case (CallOff ev cb)
    with assms show ?thesis by (auto split: sum.splits dest: off_frame)
  qed (use assms in \<open>auto simp: onopen_unfold onerror_unfold onmessage_frame onclose_attempts
        reconnect_timer_def connect_frame close_frame emitted_frame split: if_splits\<close>)
  assume le: "reconnectAttempts (mgr w) \<le> maxReconnectAttempts (mgr w)"
  show "reconnectAttempts (mgr w') \<le> maxReconnectAttempts (mgr w)"
  proof (cases e)
    case (SocketClose i wasClean)
    with assms le show ?thesis
      using onclose_attempts(2) [of "w\<lparr>sockets := (sockets w)[i := CLOSED]\<rparr>" wasClean]
      by (auto split: if_splits)
  next
    case (CallSend ty d)
    with assms le show ?thesis by (auto split: sum.splits dest: send_frame)
  next
    case (CallOn ev cb)
    with assms le show ?thesis by (auto split: sum.splits dest: on_frame)
  next
    case (CallOff ev cb)
    with assms le show ?thesis by (auto split: sum.splits dest: off_frame)
  qed (use assms le in \<open>auto simp: onopen_unfold onerror_unfold onmessage_frame
        reconnect_timer_def connect_frame close_frame emitted_frame split: if_splits\<close>)
qed

lemma run_attempts:
  "reconnectAttempts (mgr w) \<le> maxReconnectAttempts (mgr w) \<Longrightarrow>
   reconnectAttempts (mgr (run evs w)) \<le> maxReconnectAttempts (mgr w) \<and>
   maxReconnectAttempts (mgr (run evs w)) = maxReconnectAttempts (mgr w)"
proof (induction evs arbitrary: w)
  case Nil
  then show ?case by simp
next
  case (Cons e evs)
  show ?case
  proof (cases "step e w")
    case None
    with Cons show ?thesis by simp
  next
    case (Some w')
    from step_attempts [OF Some] Cons.prems
    have "reconnectAttempts (mgr w') \<le> maxReconnectAttempts (mgr w')"
      and m: "maxReconnectAttempts (mgr w') = maxReconnectAttempts (mgr w)" by simp_all
    from Cons.IH [OF this(1)] m Some show ?thesis by simp
  qed
qed

lemma constructor_attempts:
  "reconnectAttempts (mgr (constructor thr ac tk cf)) = 0"
  "maxReconnectAttempts (mgr (constructor thr ac tk cf)) = 5"
  by (simp_all add: constructor_def connect_frame)

lemma page_ready_attempts:
  "reconnectAttempts (mgr (run evs (page_ready thr ac tk cf))) \<le> 5"
proof -
  have "page_ready thr ac tk cf = run [CallOn ''initial_data'' 0, CallOn ''analysis_result'' 1, CallOn ''new_analysis'' 2,
          CallOn ''analytics_update'' 3, CallOn ''connected'' 4, CallOn ''disconnected'' 5,
          CallOn ''error'' 6] (constructor thr ac tk cf)" (is "_ = run ?ons _")
    by (simp only: page_ready_def)
  moreover have "run evs (run ?ons (constructor thr ac tk cf)) = run (?ons @ evs) (constructor thr ac tk cf)"
    by (simp del: step.simps)
  ultimately show ?thesis
    using run_attempts [of "constructor thr ac tk cf" "?ons @ evs"]
    by (simp only: constructor_attempts)
qed

subsection \<open>The last retry and after\<close>

lemma onclose_below_cap:
  assumes "reconnectAttempts (mgr w) < maxReconnectAttempts (mgr w)"
  shows "timers (onclose False w) =
           timers w @ [min (reconnectInterval (mgr w) * 2 ^ (reconnectAttempts (mgr w) + 1)) 30000]"
    and "indicator (onclose False w) = Disconnected"
    and "reconnectAttempts (mgr (onclose False w)) = reconnectAttempts (mgr w) + 1"
  using assms
  by (simp_all add: onclose_unfold Let_def scheduleReconnect_def showToast_def log_def
      emitted_frame)

lemma onclose_at_cap:
  assumes "maxReconnectAttempts (mgr w) \<le> reconnectAttempts (mgr w)"
  shows "timers (onclose wasClean w) = timers w"
    and "scheduled (trace (onclose wasClean w)) = scheduled (trace w)"
    and "indicator (onclose wasClean w) = Error"
    and "reconnectAttempts (mgr (onclose wasClean w)) = reconnectAttempts (mgr w)"
  using assms
  by (simp_all add: onclose_unfold Let_def showToast_def log_def updateConnectionStatus_def
      scheduled_append emitted_frame)

lemma abnormal_closes_retrying:
  "retrying a w \<Longrightarrow> a + k \<le> 5 \<Longrightarrow> retrying (a + k) ((abnormal_close ^^ k) w)"
proof (induction k arbitrary: a w)
  case 0
  then show ?case by simp
next
  case (Suc k)
  from Suc.prems have "a < 5" by simp
  from abnormal_close_retry(1) [OF Suc.prems(1) this]
  have "retrying (Suc a) (abnormal_close w)" .
  from Suc.IH [OF this] Suc.prems(2) show ?case by (simp add: funpow_swap1)
qed

lemma abnormal_closes_given_up:
  assumes "retrying 0 w" "5 < k"
  shows "given_up ((abnormal_close ^^ k) w)"
proof -
  from assms(2) obtain j where k: "k = j + Suc 5" by (metis add.commute less_iff_Suc_add add_Suc_right)
  from abnormal_closes_retrying [OF assms(1), of 5]
  have "retrying 5 ((abnormal_close ^^ 5) w)" by simp
  from abnormal_close_last(1) [OF this]
  have g: "given_up (abnormal_close ((abnormal_close ^^ 5) w))" .
  have e: "(abnormal_close ^^ Suc 5) w = abnormal_close ((abnormal_close ^^ 5) w)"
    by (simp only: funpow.simps o_apply)
  have "(abnormal_close ^^ k) w = (abnormal_close ^^ j) ((abnormal_close ^^ Suc 5) w)"
    by (simp only: k funpow_add o_apply)
  also have "\<dots> = abnormal_close ((abnormal_close ^^ 5) w)"
    unfolding e using g by (rule given_up_funpow)
  finally show ?thesis using g by simp
qed

lemma quiescent_stays:
  assumes "quiescent w" "automatic e"
  shows "step e w = None"
proof -
  have dead: "\<not> alive w i" for i using assms(1) by (rule quiescent_not_alive)
  have rs: "readyState w i \<noteq> Some CONNECTING" "readyState w i \<noteq> Some OPEN"
    "readyState w i \<noteq> Some CLOSING" for i
    using dead [of i] by (auto simp: alive_def)
  from assms show ?thesis
    by (cases e) (simp_all add: dead rs quiescent_def)
qed

lemma quiescent_run: "quiescent w \<Longrightarrow> list_all automatic es \<Longrightarrow> run es w = w"
  by (induction es) (simp_all add: quiescent_stays)

text \<open>
  C5. Whatever happens on the page, sockets opening and closing, timers firing, scripts
  calling the manager, callbacks registering and unregistering, the attempt counter
  stays at or below 5. An unclean close that finds the counter below
  \<open>maxReconnectAttempts\<close> raises it by one, arms a timer and leaves the indicator at
  \<open>Disconnected\<close>, also when that brings the counter to the maximum; a close that finds
  the counter at the maximum arms no timer and turns the indicator to \<open>Error\<close>. So in
  a row of failing connections from a manager with no reconnect behind it the manager
  is still retrying after each of the first five closes, and has given up after the
  sixth and any later one: the counter is 5, the indicator is \<open>Error\<close>, no timer is
  pending and no socket is alive, and no run of socket and timer events changes that
  page.
\<close>

theorem reconnect_attempts_capped:
  "reconnectAttempts (mgr (run evs (page_ready thr ac tk cf))) \<le> 5 \<and>
   (reconnectAttempts (mgr v) < maxReconnectAttempts (mgr v) \<longrightarrow>
      timers (onclose False v) =
        timers v @ [min (reconnectInterval (mgr v) * 2 ^ (reconnectAttempts (mgr v) + 1)) 30000] \<and>
      indicator (onclose False v) = Disconnected \<and>
      reconnectAttempts (mgr (onclose False v)) = reconnectAttempts (mgr v) + 1) \<and>
   (maxReconnectAttempts (mgr v) \<le> reconnectAttempts (mgr v) \<longrightarrow>
      timers (onclose wasClean v) = timers v \<and>
      scheduled (trace (onclose wasClean v)) = scheduled (trace v) \<and>
      indicator (onclose wasClean v) = Error \<and>
      reconnectAttempts (mgr (onclose wasClean v)) = reconnectAttempts (mgr v)) \<and>
   (retrying 0 u \<and> k \<le> 5 \<longrightarrow> retrying k ((abnormal_close ^^ k) u)) \<and>
   (retrying 0 u \<and> 5 < k \<longrightarrow> given_up ((abnormal_close ^^ k) u)) \<and>
   (given_up q \<and> list_all automatic es \<longrightarrow> run es q = q)"
proof -
  have "retrying 0 u \<and> k \<le> 5 \<longrightarrow> retrying k ((abnormal_close ^^ k) u)"
    using abnormal_closes_retrying [of 0 u k] by simp
  moreover have "given_up q \<and> list_all automatic es \<longrightarrow> run es q = q"
    using quiescent_run [of q es] by (simp add: given_up_def)
  ultimately show ?thesis
    using page_ready_attempts [of evs thr ac tk cf] onclose_below_cap [of v]
      onclose_at_cap [of v wasClean] abnormal_closes_given_up [of u k]
    by blast
qed

lemma demo_page_retrying: "retrying 0 demo_page"
  unfolding demo_page_def by (rule page_ready_retrying)

lemma fourth_failure: "retrying 4 ((abnormal_close ^^ 4) demo_page)"
  using abnormal_closes_retrying [OF demo_page_retrying, of 4] by simp

lemma fifth_close_page_eval:
  "reconnectAttempts (mgr fifth_close_page) = 5" "maxReconnectAttempts (mgr fifth_close_page) = 5"
  "indicator fifth_close_page = Disconnected" "timers fifth_close_page = [30000]"
  "retrying 5 (run [TimerFire 0] fifth_close_page)"
proof -
  have lt: "(4 :: nat) < 5" by simp
  note u = unclean_close_retry [OF fourth_failure lt]
  show "reconnectAttempts (mgr fifth_close_page) = 5" "maxReconnectAttempts (mgr fifth_close_page) = 5"
    "indicator fifth_close_page = Disconnected" "timers fifth_close_page = [30000]"
    using u(1-4) by (simp_all add: fifth_close_page_def backoff_values)
  from abnormal_close_retry(1) [OF fourth_failure lt] u(5)
  show "retrying 5 (run [TimerFire 0] fifth_close_page)"
    by (simp add: fifth_close_page_def del: run.simps)
qed

theorem reconnect_attempts_capped_witness:
  "reconnectAttempts (mgr ((abnormal_close ^^ 4) demo_page))
     < maxReconnectAttempts (mgr ((abnormal_close ^^ 4) demo_page)) \<and>
   timers (onclose False ((abnormal_close ^^ 4) demo_page)) = [30000] \<and>
   indicator (onclose False ((abnormal_close ^^ 4) demo_page)) = Disconnected \<and>
   reconnectAttempts (mgr (onclose False ((abnormal_close ^^ 4) demo_page))) = 5 \<and>
   maxReconnectAttempts (mgr ((abnormal_close ^^ 5) demo_page))
     \<le> reconnectAttempts (mgr ((abnormal_close ^^ 5) demo_page)) \<and>
   timers (onclose False ((abnormal_close ^^ 5) demo_page)) = [] \<and>
   indicator (onclose False ((abnormal_close ^^ 5) demo_page)) = Error \<and>
   reconnectAttempts (mgr (onclose False ((abnormal_close ^^ 5) demo_page))) = 5 \<and>
   retrying 0 demo_page \<and> (5 :: nat) \<le> 5 \<and> retrying 5 ((abnormal_close ^^ 5) demo_page) \<and>
   (5 :: nat) < 6 \<and> given_up ((abnormal_close ^^ 6) demo_page) \<and>
   list_all automatic [TimerFire 0, SocketClose 5 False, SocketOpen 5] \<and>
   run [TimerFire 0, SocketClose 5 False, SocketOpen 5] ((abnormal_close ^^ 6) demo_page) =
     (abnormal_close ^^ 6) demo_page"
proof -
  note r = demo_page_retrying
  from fourth_failure
  have f4: "reconnectAttempts (mgr ((abnormal_close ^^ 4) demo_page)) = 4"
    "maxReconnectAttempts (mgr ((abnormal_close ^^ 4) demo_page)) = 5"
    "reconnectInterval (mgr ((abnormal_close ^^ 4) demo_page)) = 1000"
    "timers ((abnormal_close ^^ 4) demo_page) = []"
    by (simp_all add: retrying_def)
  have b: "min (1000 * 2 ^ (4 + 1)) 30000 = (30000 :: nat)" by simp
  have a: "list_all automatic [TimerFire 0, SocketClose 5 False, SocketOpen 5]" by simp
  note t4 = reconnect_attempts_capped [of "[]" quiet no_calls plain_key False
      "(abnormal_close ^^ 4) demo_page" False demo_page 5 "(abnormal_close ^^ 6) demo_page"
      "[TimerFire 0, SocketClose 5 False, SocketOpen 5]"]
  from t4 r have r5: "retrying 5 ((abnormal_close ^^ 5) demo_page)" by simp
  then have f5: "reconnectAttempts (mgr ((abnormal_close ^^ 5) demo_page)) = 5"
    "maxReconnectAttempts (mgr ((abnormal_close ^^ 5) demo_page)) = 5"
    "timers ((abnormal_close ^^ 5) demo_page) = []"
    by (simp_all add: retrying_def)
  note t5 = reconnect_attempts_capped [of "[]" quiet no_calls plain_key False
      "(abnormal_close ^^ 5) demo_page" False demo_page 6 "(abnormal_close ^^ 6) demo_page"
      "[TimerFire 0, SocketClose 5 False, SocketOpen 5]"]
  from t5 r have g: "given_up ((abnormal_close ^^ 6) demo_page)" by simp
  have c4: "timers (onclose False ((abnormal_close ^^ 4) demo_page)) = [30000]"
    "indicator (onclose False ((abnormal_close ^^ 4) demo_page)) = Disconnected"
    "reconnectAttempts (mgr (onclose False ((abnormal_close ^^ 4) demo_page))) = 5"
    using t4 f4 b by simp_all
  have c5: "timers (onclose False ((abnormal_close ^^ 5) demo_page)) = []"
    "indicator (onclose False ((abnormal_close ^^ 5) demo_page)) = Error"
    "reconnectAttempts (mgr (onclose False ((abnormal_close ^^ 5) demo_page))) = 5"
    using t5 f5 by simp_all
  have s: "run [TimerFire 0, SocketClose 5 False, SocketOpen 5] ((abnormal_close ^^ 6) demo_page) =
     (abnormal_close ^^ 6) demo_page"
    using t5 g a by blast
  from f4 f5 c4 c5 r r5 g a s show ?thesis by simp
qed

text \<open>
  On the page where the fifth connection in a row has just closed, the counter has
  reached the maximum, yet the indicator reads \<open>Disconnected\<close> and a timer of 30000
  is pending; when it fires, one more socket is constructed.
\<close>

theorem error_at_max_attempts_counterexample:
  "reconnectAttempts (mgr fifth_close_page) = 5 \<and> maxReconnectAttempts (mgr fifth_close_page) = 5 \<and>
   indicator fifth_close_page = Disconnected \<and> timers fifth_close_page = [30000] \<and>
   retrying 5 (run [TimerFire 0] fifth_close_page)"
  using fifth_close_page_eval by blast

subsection \<open>The reconnect timer and connect\<close>

text \<open>
  C10. When a reconnect timer fires it is taken off the pending ones and its callback
  looks at \<open>isConnected\<close>: if the flag is set, nothing else changes, in particular no
  socket is constructed; if it is not set, the callback does what \<open>connect\<close> does,
  which constructs one socket unless the constructor throws.
\<close>

theorem reconnect_timer_checks_connection:
  "k < length (timers w) \<Longrightarrow> rest = take k (timers w) @ drop (Suc k) (timers w) \<Longrightarrow>
   (isConnected (mgr w) \<longrightarrow> step (TimerFire k) w = Some (w\<lparr>timers := rest\<rparr>)) \<and>
   (\<not> isConnected (mgr w) \<longrightarrow> step (TimerFire k) w = Some (connect (w\<lparr>timers := rest\<rparr>))) \<and>
   (\<not> isConnected (mgr w) \<and> \<not> ctor_fails w \<longrightarrow>
      (case step (TimerFire k) w of
         None \<Rightarrow> False
       | Some w' \<Rightarrow> sockets w' = sockets w @ [CONNECTING] \<and> socket (mgr w') = Some (length (sockets w))))"
  by (simp add: reconnect_timer_def connect_def)

lemma demo_page_eval:
  "demo_page = \<lparr>mgr = \<lparr>socket = Some 0, isConnected = False, reconnectAttempts = 0,
               maxReconnectAttempts = 5, reconnectInterval = 1000,
               listeners = [''initial_data'' \<mapsto> [0], ''analysis_result'' \<mapsto> [1], ''new_analysis'' \<mapsto> [2],
                 ''analytics_update'' \<mapsto> [3], ''connected'' \<mapsto> [4], ''disconnected'' \<mapsto> [5], ''error'' \<mapsto> [6]]\<rparr>,
        sockets = [CONNECTING], timers = [], indicator = Connecting, trace = [],
        throws = quiet, acts = no_calls, to_key = plain_key, ctor_fails = False\<rparr>"
  by (simp add: demo_page_def page_ready_eval)

lemma connected_page_eval:
  "isConnected (mgr connected_page)" "socket (mgr connected_page) = Some 0"
  "sockets connected_page = [OPEN]" "\<not> ctor_fails connected_page"
  by (simp_all add: connected_page_def demo_page_eval readyState_def onopen_unfold emitted_frame)

lemma dropped_page_eval:
  "\<not> isConnected (mgr dropped_page)" "timers dropped_page = [2000]"
  "sockets dropped_page = [CLOSED]" "\<not> ctor_fails dropped_page"
  by (simp_all add: dropped_page_def demo_page_eval alive_def readyState_def onclose_unfold
      scheduleReconnect_def showToast_def log_def Let_def emitted_frame)

lemma reopened_page_eval:
  "isConnected (mgr reopened_page)" "timers reopened_page = [2000]"
  "sockets reopened_page = [CLOSED, OPEN]"
  by (simp_all add: reopened_page_def demo_page_eval alive_def readyState_def onclose_unfold
      scheduleReconnect_def showToast_def log_def Let_def connect_def onopen_unfold emitted_frame)

theorem reconnect_timer_checks_connection_witness:
  "0 < length (timers reopened_page) \<and> isConnected (mgr reopened_page) \<and>
   step (TimerFire 0) reopened_page = Some (reopened_page\<lparr>timers := []\<rparr>) \<and>
   0 < length (timers dropped_page) \<and> \<not> isConnected (mgr dropped_page) \<and>
   \<not> ctor_fails dropped_page \<and>
   step (TimerFire 0) dropped_page = Some (connect (dropped_page\<lparr>timers := []\<rparr>)) \<and>
   (case step (TimerFire 0) dropped_page of
      None \<Rightarrow> False
    | Some w' \<Rightarrow> sockets w' = [CLOSED, CONNECTING])"
  using reconnect_timer_checks_connection [of 0 reopened_page "[]"]
    reconnect_timer_checks_connection [of 0 dropped_page "[]"]
  by (simp add: reopened_page_eval dropped_page_eval reconnect_timer_def connect_def)

text \<open>
  C2. \<open>connect\<close> does not look at the state: unless the constructor
  throws, every call constructs a socket and makes it the manager's, the connection
  being open or not.
\<close>

theorem connect_constructs_in_every_state:
  "\<not> ctor_fails w \<Longrightarrow>
   sockets (connect w) = sockets w @ [CONNECTING] \<and>
   socket (mgr (connect w)) = Some (length (sockets w)) \<and>
   isConnected (mgr (connect w)) = isConnected (mgr w)"
  by (simp add: connect_def)

theorem connect_constructs_in_every_state_witness:
  "\<not> ctor_fails connected_page \<and> connection_open connected_page \<and>
   sockets (connect connected_page) = [OPEN, CONNECTING] \<and>
   socket (mgr (connect connected_page)) = Some 1"
  using connect_constructs_in_every_state [of connected_page]
  by (simp add: connected_page_eval connection_open_def readyState_def)

text \<open>
  With the connection open, \<open>connect\<close> adds a socket; when that one opens too, two are
  open at once.
\<close>

theorem connect_idempotent_counterexample:
  "connection_open connected_page \<and>
   sockets (connect connected_page) \<noteq> sockets connected_page \<and>
   sockets (run [CallConnect, SocketOpen 1] connected_page) = [OPEN, OPEN]"
  by (simp add: connected_page_eval connection_open_def readyState_def connect_def onopen_unfold
      emitted_frame)

subsection \<open>send\<close>

lemma step_socket_known:
  assumes "step e w = Some w'" "socket_known w"
  shows "socket_known w'"
proof (cases e)
  case (SocketOpen i)
  with assms show ?thesis
    by (auto simp: socket_known_def readyState_def onopen_unfold emitted_frame
        split: if_splits option.splits)
next
  case (SocketMessage i fr)
  with assms show ?thesis
    by (auto simp: socket_known_def onmessage_frame split: if_splits option.splits)
next
  case (SocketError i)
  with assms show ?thesis
    by (auto simp: socket_known_def onerror_unfold emitted_frame split: if_splits option.splits)
next
  case (SocketClose i wasClean)
  with assms show ?thesis
    by (auto simp: socket_known_def alive_def readyState_def onclose_unfold Let_def
        scheduleReconnect_def showToast_def log_def updateConnectionStatus_def emitted_frame
        split: if_splits option.splits)
next
  case (TimerFire k)
  with assms show ?thesis
    by (auto simp: socket_known_def reconnect_timer_def connect_def updateConnectionStatus_def
        log_def split: if_splits option.splits)
next
  case CallConnect
  with assms show ?thesis
    by (auto simp: socket_known_def connect_def updateConnectionStatus_def log_def
        split: if_splits option.splits)
next
  case (CallSend ty d)
  with assms show ?thesis
    by (auto simp: socket_known_def split: sum.splits option.splits dest!: send_frame)
next
  case CallClose
  with assms have "mgr w' = mgr w" "length (sockets w') = length (sockets w)"
    by (auto simp: close_def split: option.splits if_splits)
  with assms(2) show ?thesis
    by (auto simp: socket_known_def split: option.splits)
next
  case (CallOn ev cb)
  with assms show ?thesis
    by (auto simp: socket_known_def split: sum.splits option.splits dest!: on_frame)
next
  case (CallOff ev cb)
  with assms show ?thesis
    by (auto simp: socket_known_def split: sum.splits option.splits dest!: off_frame)
qed

lemma run_socket_known: "socket_known w \<Longrightarrow> socket_known (run evs w)"
proof (induction evs arbitrary: w)
  case Nil
  then show ?case by simp
next
  case (Cons e evs)
  show ?case
  proof (cases "step e w")
    case None
    with Cons show ?thesis by simp
  next
    case (Some w')
    from step_socket_known [OF Some Cons.prems] have "socket_known w'" .
    from Cons.IH [OF this] Some show ?thesis by simp
  qed
qed

lemma constructor_socket_known: "socket_known (constructor thr ac tk cf)"
  by (simp add: constructor_def connect_def socket_known_def updateConnectionStatus_def log_def)

lemma page_ready_socket_known: "socket_known (run evs (page_ready thr ac tk cf))"
  unfolding page_ready_def
  by (intro run_socket_known constructor_socket_known)

lemma send_not_open:
  assumes "socket_known w" "\<not> connection_open w"
  shows "send ty d w = Inr (False, log (ConsoleWarn ''WebSocket not connected, message not sent:'') w)"
  using assms
  by (auto simp: send_def socket_known_def connection_open_def split: option.splits)

lemma send_open:
  assumes "connection_open w"
  shows "send ty d w =
     (case socket (mgr w) of
        None \<Rightarrow> Inl TypeError
      | Some i \<Rightarrow>
          if serializable d
          then Inr (True, log (Transmit i (JObj [(''type'', JStr ty), (''data'', d)])) w)
          else Inr (False, log (ConsoleError ''Error sending WebSocket message:'') w))"
  using assms
  by (auto simp: send_def connection_open_def split: option.splits)

text \<open>
  C6. In every state the page can reach: when the connection is not
  open, \<open>send\<close> returns \<open>false\<close>, throws nothing and hands nothing to a socket;
  when it is open and the message serializes, \<open>send\<close> hands \<open>{type, data}\<close> to the
  manager's socket and returns \<open>true\<close>; when it is open and \<open>JSON.stringify\<close>
  throws, the error is caught and logged, nothing is handed over and \<open>send\<close>
  returns \<open>false\<close>.
\<close>

theorem send_returns:
  "w = run evs (page_ready thr ac tk cf) \<Longrightarrow>
   (\<not> connection_open w \<longrightarrow>
      send ty d w = Inr (False, log (ConsoleWarn ''WebSocket not connected, message not sent:'') w)) \<and>
   (connection_open w \<and> serializable d \<longrightarrow>
      (case socket (mgr w) of
         None \<Rightarrow> False
       | Some i \<Rightarrow> send ty d w = Inr (True, log (Transmit i (JObj [(''type'', JStr ty), (''data'', d)])) w))) \<and>
   (connection_open w \<and> \<not> serializable d \<longrightarrow>
      send ty d w = Inr (False, log (ConsoleError ''Error sending WebSocket message:'') w))"
proof -
  assume w: "w = run evs (page_ready thr ac tk cf)"
  then have k: "socket_known w" by (simp only: page_ready_socket_known)
  have "connection_open w \<Longrightarrow> socket (mgr w) \<noteq> None"
    by (auto simp: connection_open_def split: option.splits)
  then show ?thesis
    using send_not_open [OF k, of ty d] send_open [of w ty d]
    by (auto split: option.splits)
qed

theorem send_returns_witness:
  "connected_page = run [SocketOpen 0] (page_ready quiet no_calls plain_key False) \<and>
   connection_open connected_page \<and> serializable (JObj [(''text'', JStr ''good'')]) \<and>
   send ''analyze_text'' (JObj [(''text'', JStr ''good'')]) connected_page =
     Inr (True, log (Transmit 0 (JObj [(''type'', JStr ''analyze_text''),
                                        (''data'', JObj [(''text'', JStr ''good'')])])) connected_page) \<and>
   \<not> connection_open demo_page \<and>
   send ''get_analytics'' (JObj []) demo_page =
     Inr (False, log (ConsoleWarn ''WebSocket not connected, message not sent:'') demo_page) \<and>
   \<not> serializable (JObj [(''count'', JBigInt 1)]) \<and>
   send ''analyze_text'' (JObj [(''count'', JBigInt 1)]) connected_page =
     Inr (False, log (ConsoleError ''Error sending WebSocket message:'') connected_page)"
proof -
  have c: "connected_page = run [SocketOpen 0] (page_ready quiet no_calls plain_key False)"
    by (simp only: connected_page_def demo_page_def)
  have d: "demo_page = run [] (page_ready quiet no_calls plain_key False)"
    by (simp add: demo_page_def)
  have o: "connection_open connected_page"
    by (simp add: connected_page_eval connection_open_def readyState_def)
  have n: "\<not> connection_open demo_page"
    by (simp add: demo_page_eval connection_open_def)
  have s: "socket (mgr connected_page) = Some 0" by (rule connected_page_eval)
  from send_returns [OF c, of "''analyze_text''" "JObj [(''text'', JStr ''good'')]"]
    send_returns [OF d, of "''get_analytics''" "JObj []"]
    send_returns [OF c, of "''analyze_text''" "JObj [(''count'', JBigInt 1)]"] o n s c
  show ?thesis by simp
qed

text \<open>With the connection open, \<open>send\<close> returns \<open>false\<close> for data holding a BigInt.\<close>

theorem send_open_returns_true_counterexample:
  "connection_open connected_page \<and>
   send ''analyze_text'' (JObj [(''count'', JBigInt 1)]) connected_page =
     Inr (False, log (ConsoleError ''Error sending WebSocket message:'') connected_page)"
proof -
  have o: "connection_open connected_page"
    by (simp add: connected_page_eval connection_open_def readyState_def)
  from send_open [OF o, of "''analyze_text''" "JObj [(''count'', JBigInt 1)]"] o show ?thesis
    by (simp add: connected_page_eval)
qed

subsection \<open>emit and the inbound frame\<close>







lemma onmessage_unfold:
  assumes "field ''type'' d = Some (JStr t)"
  shows "onmessage (Json d) w =
     (let w1 = emitted ''message'' (Data d) w
      in case emit t (Data d) w1 of Inl e \<Rightarrow> parse_error w1 | Inr w2 \<Rightarrow> w2)"
proof -
  from assms have n: "d \<noteq> JNull" by (auto simp: field_def)
  have "type_key v d = t" for v using assms by (simp add: type_key_def)
  with onmessage_json [OF n, of w] show ?thesis by simp
qed

lemma onmessage_payload:
  assumes "field ''type'' d = Some (JStr t)"
  shows "\<exists>cbs. invocations (trace (onmessage (Json d) w)) =
     invocations (trace w) @ map (\<lambda>cb. (cb, Data d)) cbs"
proof -
  let ?w1 = "emitted ''message'' (Data d) w"
  from invocations_emitted [of "''message''" "Data d" w] obtain xs where
    xs: "invocations (trace ?w1) = invocations (trace w) @ map (\<lambda>cb. (cb, Data d)) xs" by blast
  show ?thesis
  proof (cases "emit t (Data d) ?w1")
    case (Inl e)
    with xs have "invocations (trace (onmessage (Json d) w)) =
        invocations (trace w) @ map (\<lambda>cb. (cb, Data d)) xs"
      by (simp add: onmessage_unfold [OF assms] parse_error_def log_def invocations_append Let_def)
    then show ?thesis by blast
  next
    case (Inr w2)
    from emit_Inr [OF Inr] invocations_emitted [of t "Data d" ?w1] obtain ys where
      "invocations (trace w2) = invocations (trace ?w1) @ map (\<lambda>cb. (cb, Data d)) ys" by auto
    with xs Inr have "invocations (trace (onmessage (Json d) w)) =
        invocations (trace w) @ map (\<lambda>cb. (cb, Data d)) (xs @ ys)"
      by (simp add: onmessage_unfold [OF assms] Let_def)
    then show ?thesis by blast
  qed
qed

lemma onmessage_invocations:
  assumes "field ''type'' d = Some (JStr t)"
    and "\<forall>cb \<in> set (registered w ''message'' @ registered w t). acts w cb (Data d) = []"
  shows "invocations (trace (onmessage (Json d) w)) =
     invocations (trace w) @ map (\<lambda>cb. (cb, Data d)) (registered w ''message'') @
     map (\<lambda>cb. (cb, Data d)) (registered w t)"
proof -
  let ?w1 = "w\<lparr>trace := trace w @ dispatch_log (throws w) ''message'' (Data d) (registered w ''message'')\<rparr>"
  from assms(2) have "\<forall>cb \<in> set (registered w ''message''). acts w cb (Data d) = []" by simp
  from emitted_inert [OF this] have e1: "emitted ''message'' (Data d) w = ?w1" .
  have r: "registered ?w1 t = registered w t" by (simp add: registered_def)
  from assms(2) have "\<forall>cb \<in> set (registered ?w1 t). acts ?w1 cb (Data d) = []"
    by (simp add: r)
  from emitted_inert [OF this]
  have e2: "emitted t (Data d) ?w1 =
      ?w1\<lparr>trace := trace ?w1 @ dispatch_log (throws w) t (Data d) (registered w t)\<rparr>"
    by (simp add: r)
  have i1: "invocations (trace ?w1) =
      invocations (trace w) @ map (\<lambda>cb. (cb, Data d)) (registered w ''message'')"
    by (simp add: invocations_append invocations_dispatch)
  show ?thesis
  proof (cases "emit t (Data d) ?w1")
    case (Inl e)
    then have "registered w t = []"
      by (auto simp: emit_def registered_def split: option.splits)
    with Inl i1 show ?thesis
      by (simp add: onmessage_unfold [OF assms(1)] e1 parse_error_def log_def invocations_append Let_def)
  next
    case (Inr w2)
    from emit_Inr [OF Inr] e2
    have "invocations (trace w2) =
        invocations (trace ?w1) @ map (\<lambda>cb. (cb, Data d)) (registered w t)"
      by (simp add: invocations_append invocations_dispatch)
    with Inr i1 show ?thesis
      by (simp add: onmessage_unfold [OF assms(1)] e1 Let_def)
  qed
qed

text \<open>
  C3. For a frame that parses to an object whose \<open>type\<close> is a string, whatever a
  callback is handed while the frame is dealt with is the whole parsed envelope, not
  its \<open>data\<close> field; and when the callbacks on \<open>message\<close> and on that type make no
  calls of \<open>on\<close> or \<open>off\<close>, the callbacks on \<open>message\<close> are called and then the
  callbacks on that type, each once and in the order they registered.
\<close>

theorem onmessage_passes_envelope:
  "field ''type'' d = Some (JStr t) \<Longrightarrow>
   (\<exists>cbs. invocations (trace (onmessage (Json d) w)) =
      invocations (trace w) @ map (\<lambda>cb. (cb, Data d)) cbs) \<and>
   ((\<forall>cb \<in> set (registered w ''message'' @ registered w t). acts w cb (Data d) = []) \<longrightarrow>
    invocations (trace (onmessage (Json d) w)) =
      invocations (trace w) @ map (\<lambda>cb. (cb, Data d)) (registered w ''message'') @
      map (\<lambda>cb. (cb, Data d)) (registered w t))"
  using onmessage_payload [of d t w] onmessage_invocations [of d t w] by blast

lemma listening_page_eval:
  "registered listening_page ''message'' = [7]" "registered listening_page ''analysis_result'' = [1]"
  "invocations (trace listening_page) = [(4, OpenEvent)]" "acts listening_page = no_calls"
  by (simp_all add: listening_page_def demo_page_eval on_def object_prototype_keys_def
      readyState_def onopen_unfold registered_def quiet_def no_calls_def emitted_inert
      emitted_frame)

lemma result_envelope_fields:
  "field ''type'' result_envelope = Some (JStr ''analysis_result'')"
  "field ''data'' result_envelope = Some result_data"
  by (simp_all add: result_envelope_def field_def)

theorem onmessage_passes_envelope_witness:
  "field ''type'' result_envelope = Some (JStr ''analysis_result'') \<and>
   acts listening_page 7 (Data result_envelope) = [] \<and>
   acts listening_page 1 (Data result_envelope) = [] \<and>
   invocations (trace (onmessage (Json result_envelope) listening_page)) =
     [(4, OpenEvent), (7, Data result_envelope), (1, Data result_envelope)]"
  using onmessage_passes_envelope [of result_envelope "''analysis_result''" listening_page]
  by (simp add: listening_page_eval result_envelope_fields no_calls_def)

text \<open>The callbacks are not handed the \<open>data\<close> field of the envelope.\<close>

theorem onmessage_payload_counterexample:
  "field ''type'' result_envelope = Some (JStr ''analysis_result'') \<and>
   field ''data'' result_envelope = Some result_data \<and>
   invocations (trace (onmessage (Json result_envelope) listening_page)) \<noteq>
     [(4, OpenEvent), (7, Data result_data), (1, Data result_data)]"
proof -
  have n: "result_envelope \<noteq> result_data"
    by (simp add: result_envelope_def result_data_def)
  have "\<forall>cb \<in> set (registered listening_page ''message'' @
      registered listening_page ''analysis_result''). acts listening_page cb (Data result_envelope) = []"
    by (simp add: listening_page_eval no_calls_def)
  from onmessage_invocations [OF result_envelope_fields(1) this] result_envelope_fields n
  show ?thesis
    by (simp add: listening_page_eval)
qed

subsection \<open>The debounced trigger\<close>

lemma fire_due_idle: "queue s = [] \<Longrightarrow> fire_due s = s"
  by (subst fire_due.simps) simp

lemma tick_idle: "queue s = [] \<Longrightarrow> tick s = s\<lparr>now := Suc (now s)\<rparr>"
  by (simp add: tick_def fire_due_idle)

lemma advance_idle: "queue s = [] \<Longrightarrow> advance d s = s\<lparr>now := now s + d\<rparr>"
proof (induction d)
  case 0
  then show ?case by (simp add: advance_def)
next
  case (Suc d)
  then show ?case by (simp add: advance_def tick_idle)
qed

lemma tick_armed_early:
  assumes "armed due args s" "Suc (now s) < due"
  shows "tick s = s\<lparr>now := Suc (now s)\<rparr>"
  using assms by (subst tick_def, subst fire_due.simps) (auto simp: armed_def)

lemma tick_armed_due:
  assumes "armed due args s" "Suc (now s) = due"
  shows "tick s = s\<lparr>now := due, queue := [], calls := calls s @ [(due, args)]\<rparr>"
proof -
  from assms obtain h where h: "queue s = [(h, due, args)]" "timeout s = Some h"
    by (auto simp: armed_def)
  have "fire_due (s\<lparr>now := Suc (now s)\<rparr>) =
        fire_due (later args (s\<lparr>now := Suc (now s), queue := []\<rparr>))"
    using h assms(2) by (subst fire_due.simps) simp
  also have "later args (s\<lparr>now := Suc (now s), queue := []\<rparr>) =
        s\<lparr>now := due, queue := [], calls := calls s @ [(due, args)]\<rparr>"
    using h assms(2) by (simp add: later_def clearTimeout_def Let_def)
  finally show ?thesis by (simp add: tick_def fire_due_idle)
qed

lemma advance_armed_early:
  "armed due args s \<Longrightarrow> now s + d < due \<Longrightarrow> advance d s = s\<lparr>now := now s + d\<rparr>"
proof (induction d)
  case 0
  then show ?case by (simp add: advance_def)
next
  case (Suc d)
  then have eq: "advance d s = s\<lparr>now := now s + d\<rparr>" by simp
  from Suc.prems have "armed due args (s\<lparr>now := now s + d\<rparr>)" by (simp add: armed_def)
  from tick_armed_early [OF this] Suc.prems(2) eq show ?case
    by (simp add: advance_def)
qed

lemma advance_Suc: "advance (Suc d) s = tick (advance d s)"
  by (simp add: advance_def)

lemma advance_add: "advance (a + b) s = advance b (advance a s)"
  unfolding advance_def by (subst add.commute) (simp add: funpow_add)

lemma advance_armed_late:
  assumes "armed due args s" "due \<le> now s + d"
  shows "advance d s = s\<lparr>now := now s + d, queue := [], calls := calls s @ [(due, args)]\<rparr>"
proof -
  from assms(1) have lt: "now s < due" by (simp add: armed_def)
  define a where "a = due - Suc (now s)"
  define b where "b = now s + d - due"
  have d: "d = Suc a + b" using lt assms(2) by (simp add: a_def b_def)
  have "now s + a < due" using lt by (simp add: a_def)
  from advance_armed_early [OF assms(1) this]
  have e1: "advance a s = s\<lparr>now := now s + a\<rparr>" .
  have ar: "armed due args (s\<lparr>now := now s + a\<rparr>)" using assms(1) lt by (simp add: armed_def a_def)
  have "Suc (now (s\<lparr>now := now s + a\<rparr>)) = due" using lt by (simp add: a_def)
  from tick_armed_due [OF ar this]
  have e2: "advance (Suc a) s = s\<lparr>now := due, queue := [], calls := calls s @ [(due, args)]\<rparr>"
    by (simp add: advance_Suc e1)
  have "advance d s = advance b (advance (Suc a) s)"
    by (subst d) (rule advance_add)
  also have "\<dots> = s\<lparr>now := due + b, queue := [], calls := calls s @ [(due, args)]\<rparr>"
    by (simp add: e2 advance_idle)
  also have "due + b = now s + d"
    using assms(2) by (simp add: b_def)
  finally show ?thesis .
qed

lemma debounced_idle:
  "queue s = [] \<Longrightarrow> 0 < wait \<Longrightarrow>
   armed (now s + wait) args (debounced wait args s) \<and>
   calls (debounced wait args s) = calls s \<and> now (debounced wait args s) = now s"
  by (simp add: debounced_def setTimeout_def clearTimeout_def armed_def Let_def split: option.split)

lemma debounced_armed:
  "armed due old s \<Longrightarrow> 0 < wait \<Longrightarrow>
   armed (now s + wait) args (debounced wait args s) \<and>
   calls (debounced wait args s) = calls s \<and> now (debounced wait args s) = now s"
  by (auto simp: debounced_def setTimeout_def clearTimeout_def armed_def Let_def)

lemma burst_armed:
  "armed (now s + wait) a0 s \<Longrightarrow> 0 < wait \<Longrightarrow> \<forall>c \<in> set cs. fst c < wait \<Longrightarrow>
   armed (now s + sum_list (map fst cs) + wait) (last (a0 # map snd cs)) (burst wait cs s) \<and>
   calls (burst wait cs s) = calls s \<and> now (burst wait cs s) = now s + sum_list (map fst cs)"
proof (induction cs arbitrary: s a0)
  case Nil
  then show ?case by simp
next
  case (Cons c cs)
  obtain gap args where c: "c = (gap, args)" by (cases c)
  with Cons.prems have gap: "gap < wait" by simp
  let ?s1 = "advance gap s"
  have s1: "?s1 = s\<lparr>now := now s + gap\<rparr>"
    using advance_armed_early [OF Cons.prems(1)] gap by simp
  have "armed (now s + wait) a0 ?s1" using Cons.prems(1) gap by (simp add: s1 armed_def)
  from debounced_armed [OF this Cons.prems(2), of args]
  have d: "armed (now ?s1 + wait) args (debounced wait args ?s1)"
       "calls (debounced wait args ?s1) = calls s" "now (debounced wait args ?s1) = now s + gap"
    by (simp_all add: s1)
  have "armed (now (debounced wait args ?s1) + wait) args (debounced wait args ?s1)"
    using d by (simp add: s1)
  from Cons.IH [OF this Cons.prems(2)] Cons.prems(3) d
  show ?case by (simp add: c s1 add.assoc)
qed


lemma cancel_armed:
  "armed due args s \<Longrightarrow> queue (cancel s) = [] \<and> calls (cancel s) = calls s"
  by (auto simp: cancel_def clearTimeout_def armed_def)

text \<open>
  C8. Take a trigger with a quiet window of \<open>wait\<close> milliseconds and nothing
  pending, call it, and call it again any number of times, each call less than
  \<open>wait\<close> after the one before. While less than \<open>wait\<close> has passed since the last
  call, \<open>func\<close> has not been called; once \<open>wait\<close> has passed it has been called
  exactly once, at the end of the window, with the arguments of the last call, however
  long one waits after. If \<open>cancel\<close> is called after the last call, \<open>func\<close> is never
  called.
\<close>

theorem debounce_fires_once_with_last_arguments:
  assumes "0 < wait" and "queue s = []" and "\<forall>c \<in> set cs. fst c < wait"
  shows "calls (advance d (burst wait cs (debounced wait a0 s))) =
           calls s @
           (if wait \<le> d
            then [(now s + sum_list (map fst cs) + wait, last (a0 # map snd cs))]
            else []) \<and>
         calls (advance d (cancel (burst wait cs (debounced wait a0 s)))) = calls s"
proof -
  let ?s1 = "debounced wait a0 s"
  from debounced_idle [OF assms(2) assms(1), of a0]
  have s1: "armed (now s + wait) a0 ?s1" "calls ?s1 = calls s" "now ?s1 = now s" by simp_all
  then have "armed (now ?s1 + wait) a0 ?s1" by simp
  from burst_armed [OF this assms(1) assms(3)] s1
  have b: "armed (now s + sum_list (map fst cs) + wait) (last (a0 # map snd cs)) (burst wait cs ?s1)"
    "calls (burst wait cs ?s1) = calls s" "now (burst wait cs ?s1) = now s + sum_list (map fst cs)"
    by simp_all
  have fired: "calls (advance d (burst wait cs ?s1)) =
      calls s @ (if wait \<le> d then [(now s + sum_list (map fst cs) + wait, last (a0 # map snd cs))] else [])"
  proof (cases "wait \<le> d")
    case True
    with b(3) have "now s + sum_list (map fst cs) + wait \<le> now (burst wait cs ?s1) + d" by simp
    from advance_armed_late [OF b(1) this] b(2) True show ?thesis by simp
  next
    case False
    with b(3) have "now (burst wait cs ?s1) + d < now s + sum_list (map fst cs) + wait" by simp
    from advance_armed_early [OF b(1) this] b(2) False show ?thesis by simp
  qed
  from cancel_armed [OF b(1)] b(2)
  have "queue (cancel (burst wait cs ?s1)) = []" "calls (cancel (burst wait cs ?s1)) = calls s"
    by simp_all
  with advance_idle [of "cancel (burst wait cs ?s1)" d]
  have "calls (advance d (cancel (burst wait cs ?s1))) = calls s" by simp
  with fired show ?thesis by simp
qed

theorem debounce_fires_once_with_last_arguments_witness:
  "(0 :: nat) < 1500 \<and> queue (debounce 7 :: string timer_page) = [] \<and>
   (100 :: nat) < 1500 \<and> (1499 :: nat) < 1500 \<and>
   calls (advance 1500 (burst 1500 [(100, ''ab''), (1499, ''abc'')] (debounced 1500 ''a'' (debounce 7)))) =
     [(3106, ''abc'')] \<and>
   calls (advance 1499 (burst 1500 [(100, ''ab''), (1499, ''abc'')] (debounced 1500 ''a'' (debounce 7)))) = [] \<and>
   calls (advance 9000 (cancel (burst 1500 [(100, ''ab''), (1499, ''abc'')] (debounced 1500 ''a'' (debounce 7))))) = []"
proof -
  have h: "(0 :: nat) < 1500" "queue (debounce 7 :: string timer_page) = []"
    "\<forall>c \<in> set [(100, ''ab''), (1499, ''abc'')]. fst c < (1500 :: nat)"
    by (simp_all add: debounce_def)
  have v: "now (debounce 7 :: string timer_page) = 7" "calls (debounce 7 :: string timer_page) = []"
    by (simp_all add: debounce_def)
  from debounce_fires_once_with_last_arguments [OF h, of 1500 "''a''"]
    debounce_fires_once_with_last_arguments [OF h, of 1499 "''a''"]
    debounce_fires_once_with_last_arguments [OF h, of 9000 "''a''"] h v
  show ?thesis by simp
qed

subsection \<open>The busy flag of analyzeText\<close>

lemma trim_Nil: "trim [] = []"
  by (simp add: trim_def)

lemma finally_manual: "\<not> isAnalyzing (finally_block False p)"
  by (simp add: finally_block_def setAnalyzeButtonState_def split: option.split)

lemma finally_realtime: "finally_block True p = p"
  by (simp add: finally_block_def)

lemma resume_manual: "\<not> isAnalyzing (analyzeText_resume resp False p)"
  by (simp add: analyzeText_resume_def finally_manual)

lemma catch_block_busy: "isAnalyzing (catch_block m p) = isAnalyzing p"
  by (simp add: catch_block_def app_showToast_def)

lemma display_busy: "displayAnalysisResult err broken p = Inr p' \<Longrightarrow> isAnalyzing p' = isAnalyzing p"
  by (auto simp: displayAnalysisResult_def app_showToast_def split: option.splits)

lemma resume_realtime: "isAnalyzing (analyzeText_resume resp True p) = isAnalyzing p"
  by (auto simp: analyzeText_resume_def finally_realtime catch_block_busy
      split: response.splits sum.splits dest: display_busy)

lemma setButton_busy: "isAnalyzing (setAnalyzeButtonState b p) = isAnalyzing p"
  by (simp add: setAnalyzeButtonState_def split: option.split)

lemma websocket_busy: "analyzeTextWebSocket text p = Inr (b, p') \<Longrightarrow> isAnalyzing p' = isAnalyzing p"
  by (auto simp: analyzeTextWebSocket_def split: option.splits if_splits sum.splits)

lemma call_manual_completed:
  assumes "analyzeText text False p = (p', Completed)" "trim text \<noteq> []" "\<not> isAnalyzing p"
  shows "\<not> isAnalyzing p'"
  using assms
  by (auto simp: analyzeText_def Let_def await_fetch_def finally_manual trim_Nil
      split: if_splits sum.splits prod.splits)

lemma call_realtime:
  assumes "analyzeText text True p = (p', r)" "trim text \<noteq> []"
  shows "isAnalyzing p'"
  using assms
  by (auto simp: analyzeText_def Let_def await_fetch_def finally_realtime setButton_busy
      catch_block_busy trim_Nil split: if_splits sum.splits prod.splits dest!: websocket_busy)

lemma settled_manual:
  assumes "trim text \<noteq> []" "\<not> isAnalyzing p"
  shows "\<not> isAnalyzing (analyzeText_settled text False resp p)"
proof (cases "analyzeText text False p")
  case (Pair p' r)
  show ?thesis
  proof (cases r)
    case Completed
    with Pair call_manual_completed [OF _ assms] show ?thesis
      by (simp add: analyzeText_settled_def)
  next
    case Suspended
    with Pair show ?thesis by (simp add: analyzeText_settled_def resume_manual)
  qed
qed

lemma settled_realtime:
  assumes "trim text \<noteq> []"
  shows "isAnalyzing (analyzeText_settled text True resp p)"
proof (cases "analyzeText text True p")
  case (Pair p' r)
  from call_realtime [OF Pair assms] have "isAnalyzing p'" .
  with Pair show ?thesis
    by (cases r) (simp_all add: analyzeText_settled_def resume_realtime)
qed

text \<open>
  C4. A manual submission that starts an attempt, the text not blank and
  no manual attempt under way, ends with the busy flag cleared, whichever way it ends:
  sent over the socket, \<open>send\<close> throwing, the fetch rejecting, a status that is not
  ok, a body that is not JSON, a result with an \<open>error\<close> field, rendering raising,
  or success; and the rest of the function after the fetch clears the flag whatever
  the page did in between. A realtime submission with text that is not blank sets
  the flag and ends with it set.
\<close>

theorem manual_attempt_clears_busy:
  "trim text \<noteq> [] \<Longrightarrow>
   (\<not> isAnalyzing p \<longrightarrow> \<not> isAnalyzing (analyzeText_settled text False resp p)) \<and>
   \<not> isAnalyzing (analyzeText_resume resp False q) \<and>
   isAnalyzing (analyzeText_settled text True resp p)"
  using settled_manual [of "text" p resp] resume_manual [of resp q] settled_realtime [of "text" resp p]
  by blast

lemma review_text_trim: "trim review_text \<noteq> []"
  by (simp add: review_text_def trim_def is_space_def)

lemma review_text_call:
  "analyzeText review_text rt (SentimentApp True) =
    (\<lparr>isAnalyzing = True, analyzeBtn = Some True, realtimeToggle = Some True,
      resultsSection = Some False, textArea = Some [], charCount = Some 0,
      wsManager = None, window_wsManager = False,
      out = [Fetch review_text (\<not> rt)]\<rparr>, Suspended)"
  using review_text_trim
  by (auto simp: analyzeText_def SentimentApp_def Let_def setAnalyzeButtonState_def
      ws_connected_def await_fetch_def trim_Nil)

theorem manual_attempt_clears_busy_witness:
  "trim review_text \<noteq> [] \<and> \<not> isAnalyzing (SentimentApp True) \<and>
   \<not> isAnalyzing (analyzeText_settled review_text False (HttpStatus ''500: Internal Server Error'') (SentimentApp True)) \<and>
   isAnalyzing (analyzeText_settled review_text True (Delivered None None) (SentimentApp True))"
  using manual_attempt_clears_busy [OF review_text_trim, of "SentimentApp True"
      "HttpStatus ''500: Internal Server Error''" "SentimentApp True"]
    manual_attempt_clears_busy [OF review_text_trim, of "SentimentApp True"
      "Delivered None None" "SentimentApp True"]
    review_text_trim
  by (simp add: SentimentApp_def)

text \<open>A realtime attempt that ran to its end over the fallback leaves the busy flag set.\<close>

theorem busy_cleared_in_any_mode_counterexample:
  "isAnalyzing (analyzeText_settled review_text True (Delivered None None) (SentimentApp True))"
  by (simp add: analyzeText_settled_def review_text_call analyzeText_resume_def
      displayAnalysisResult_def finally_block_def)

subsection \<open>The reentrancy guard\<close>
















end
